theory Spec2Isabelle
  imports Main
begin

text \<open>
  The chat backend of the Polymarket MCP demo, \<^verbatim>\<open>demo/chatbot-ui/backend/src/index.ts\<close>:
  the MCP client with its OAuth pause and its reconnection on session expiry, the loop
  between the language model and the tools, and the WebSocket and HTTP handlers.

  The model keeps the control flow, the module-level variables, the requests to the
  outside (MCP server, OAuth, language model) with the object they are made on, and the
  messages sent to the sockets. It leaves out the console output (but for the line that
  announces a reconnect), the pacing delay between streamed chunks, and the HTML of
  the OAuth pages. It takes \<^verbatim>\<open>ws.send\<close>, \<^verbatim>\<open>JSON.stringify\<close> and the constructors other
  than \<^verbatim>\<open>new URL\<close> not to throw, and the answers of the libraries to have the types
  their declarations give them. The callbacks of one \<^verbatim>\<open>Promise.all\<close> are interleaved in
  every possible order; a turn as a whole, the start of the process and the OAuth
  callback are each run with nothing else in between.
\<close>

section \<open>JavaScript values observed by the chat backend\<close>

text \<open>
  A thrown JavaScript value, reduced to what \<^verbatim>\<open>index.ts\<close> observes of it:
  \<^verbatim>\<open>error instanceof Error\<close>, \<^verbatim>\<open>error instanceof UnauthorizedError\<close>,
  \<^verbatim>\<open>error?.message\<close> (the empty string stands for an absent or falsy message) and
  \<^verbatim>\<open>String(error)\<close>.
\<close>

record js_error =
  instanceof_Error :: bool
  instanceof_UnauthorizedError :: bool
  message :: string
  toString :: string

text \<open>\<^verbatim>\<open>new Error(msg)\<close> and the \<^verbatim>\<open>TypeError\<close> of a property read on \<^verbatim>\<open>null\<close>.\<close>

definition Error :: "string \<Rightarrow> js_error" where
  "Error msg =
     \<lparr>instanceof_Error = True, instanceof_UnauthorizedError = False,
      message = msg, toString = (if msg = [] then ''Error'' else ''Error: '' @ msg)\<rparr>"

definition TypeError :: "string \<Rightarrow> js_error" where
  "TypeError msg =
     \<lparr>instanceof_Error = True, instanceof_UnauthorizedError = False,
      message = msg, toString = (if msg = [] then ''TypeError'' else ''TypeError: '' @ msg)\<rparr>"

text \<open>\<^verbatim>\<open>const errorMessage = error?.message || String(error)\<close> (index.ts, line 318).\<close>

definition errorMessage :: "js_error \<Rightarrow> string" where
  "errorMessage error = (if message error \<noteq> [] then message error else toString error)"

text \<open>\<^verbatim>\<open>String.prototype.includes\<close>: the pattern occurs as a contiguous run of the text.\<close>

fun string_includes :: "string \<Rightarrow> string \<Rightarrow> bool" where
  "string_includes [] pat = (pat = [])"
| "string_includes (c # cs) pat = (take (length pat) (c # cs) = pat \<or> string_includes cs pat)"

text \<open>\<^verbatim>\<open>String.prototype.split(sep)\<close> for a separator of one character.\<close>

fun split :: "char \<Rightarrow> string \<Rightarrow> string list" where
  "split sep [] = [[]]"
| "split sep (c # cs) =
     (if c = sep then [] # split sep cs
      else (case split sep cs of [] \<Rightarrow> [[c]] | w # ws \<Rightarrow> (c # w) # ws))"

section \<open>Data of the protocol and of the model provider\<close>

type_synonym handle = nat
type_synonym websocket = nat

text \<open>A tool as the MCP server lists it, and as it is handed to the language model.\<close>

record 'j mcp_tool =
  mcp_name :: string
  mcp_description :: "string option"
  inputSchema :: 'j

record 'j anthropic_tool =
  name :: string
  description :: string
  input_schema :: 'j

text \<open>
  \<^verbatim>\<open>{ name: tool.name, description: tool.description || "", input_schema: tool.inputSchema }\<close>
\<close>

definition toAnthropicTool :: "'j mcp_tool \<Rightarrow> 'j anthropic_tool" where
  "toAnthropicTool tool =
     \<lparr>name = mcp_name tool,
      description = (case mcp_description tool of None \<Rightarrow> [] | Some d \<Rightarrow> d),
      input_schema = inputSchema tool\<rparr>"

record 'j tool_use_block =
  tool_id :: string
  tool_name :: string
  tool_input :: 'j

datatype 'j content_block =
    TextBlock string
  | ToolUseBlock "'j tool_use_block"
  | OtherBlock

record tool_result =
  result_type :: string
  tool_use_id :: string
  result_content :: string

datatype role = User | Assistant

text \<open>\<^verbatim>\<open>interface Message { role: "user" | "assistant"; content: string }\<close>\<close>

record history_message =
  hist_role :: role
  hist_content :: string

text \<open>\<^verbatim>\<open>Anthropic.Messages.MessageParam\<close>: the content is a string, the blocks of a model
  response, or a list of tool results.\<close>

datatype 'j param_content =
    StringContent string
  | BlockContent "'j content_block list"
  | ToolResultContent "tool_result list"

record 'j message_param =
  role :: role
  content :: "'j param_content"

record 'j response =
  stop_reason :: string
  response_content :: "'j content_block list"

text \<open>The arguments of \<^verbatim>\<open>anthropic.messages.create\<close>; \<open>with_system\<close> tells whether the
  \<^verbatim>\<open>system\<close> instruction is passed (only the first request of a turn passes it).\<close>

record 'j create_params =
  model :: string
  max_tokens :: nat
  with_system :: bool
  messages :: "'j message_param list"
  tools :: "'j anthropic_tool list"

section \<open>The environment\<close>

text \<open>
  The MCP SDK, the OAuth provider, the language-model client and \<^verbatim>\<open>JSON.stringify\<close> are
  libraries and remote services. Each request is a function from the state \<open>'w\<close> of the
  outside world to a result (\<open>Inl\<close>: the promise rejects) and the next world. The handle
  says which \<^verbatim>\<open>Client\<close> or transport object the request is made on.
\<close>

record ('w, 'j) env =
  url_valid :: bool
  loadSavedTokens :: "'w \<Rightarrow> (js_error + unit) \<times> 'w"
  client_connect :: "handle \<Rightarrow> handle \<Rightarrow> 'w \<Rightarrow> (js_error + unit) \<times> 'w"
  client_close :: "handle \<Rightarrow> 'w \<Rightarrow> (js_error + unit) \<times> 'w"
  client_listTools :: "handle \<Rightarrow> 'w \<Rightarrow> (js_error + 'j mcp_tool list) \<times> 'w"
  client_listPrompts :: "handle \<Rightarrow> 'w \<Rightarrow> (js_error + unit) \<times> 'w"
  client_listResources :: "handle \<Rightarrow> 'w \<Rightarrow> (js_error + unit) \<times> 'w"
  client_callTool :: "handle \<Rightarrow> string \<Rightarrow> 'j \<Rightarrow> 'w \<Rightarrow> (js_error + 'j) \<times> 'w"
  transport_finishAuth :: "handle \<Rightarrow> string \<Rightarrow> 'w \<Rightarrow> (js_error + unit) \<times> 'w"
  messages_create :: "'j create_params \<Rightarrow> 'w \<Rightarrow> (js_error + 'j response) \<times> 'w"
  JSON_stringify :: "'j \<Rightarrow> string"

text \<open>What the process does that an observer can see, in the order it happens.\<close>

datatype 'j event =
    Reconnecting
  | LoadSavedTokens
  | Connect handle handle
  | Close handle
  | ListTools handle
  | ListPrompts handle
  | ListResources handle
  | CallTool handle string 'j
  | FinishAuth handle string
  | CreateMessage "'j create_params"

text \<open>Modelled from the spec: \<^verbatim>\<open>oauth-provider.ts\<close> (class \<^verbatim>\<open>SimpleOAuthProvider\<close>) is not
  among the sources. The spec gives it a pending-authorization marker, set while an
  authorization request awaits its redirect and cleared by \<^verbatim>\<open>clearPendingAuth\<close>.\<close>

record oauth_provider =
  pendingAuth :: bool

text \<open>
  The module-level variables of \<^verbatim>\<open>index.ts\<close> (\<open>mcpClient\<close> to \<open>conversationHistories\<close>),
  and what the model adds: the messages sent on each socket, the exit code of
  \<^verbatim>\<open>process.exit\<close>, the world, the observable events and the next fresh object handle.
\<close>

record ('w, 'j) state =
  mcpClient :: "handle option"
  mcpTransport :: "handle option"
  oauthProvider :: "oauth_provider option"
  availableTools :: "'j anthropic_tool list"
  conversationHistories :: "websocket \<rightharpoonup> history_message list"
  sent :: "websocket \<Rightarrow> string list"
  exitCode :: "nat option"
  world :: 'w
  events :: "'j event list"
  nextHandle :: handle

section \<open>Asynchronous functions\<close>

text \<open>
  An \<^verbatim>\<open>async\<close> function runs synchronously up to its first \<^verbatim>\<open>await\<close>, where it is
  suspended; it is resumed later, in whatever state the process is in by then. A
  computation is therefore a function that runs on the current state up to the next
  suspension (\<open>code\<close>), and a suspended computation holds the code to resume with.
\<close>

datatype ('s, 'a) proc =
    Return 'a
  | Throw js_error
  | Await "'s \<Rightarrow> ('s, 'a) proc \<times> 's"

type_synonym ('s, 'a) code = "'s \<Rightarrow> ('s, 'a) proc \<times> 's"

definition return :: "'a \<Rightarrow> ('s, 'a) code" where
  "return a = (\<lambda>s. (Return a, s))"

definition throw :: "js_error \<Rightarrow> ('s, 'a) code" where
  "throw e = (\<lambda>s. (Throw e, s))"

text \<open>
  Sequencing: \<open>f\<close> runs on the value of \<open>p\<close>, a throw of \<open>p\<close> skips it. For a suspended \<open>p\<close>
  the result is suspended and goes on with \<open>f\<close> once the rest of \<open>p\<close> is done: resumed in
  \<open>s1\<close> with \<open>k s1 = (p', s2)\<close>, it continues as \<open>bindp p' f s2\<close>. Primitive recursion
  through the function and the pair is written with \<open>map_prod\<close>; \<open>catchp\<close>, \<open>settle\<close> and
  \<open>run\<close> below have the same shape.
\<close>

primrec bindp :: "('s, 'a) proc \<Rightarrow> ('a \<Rightarrow> ('s, 'b) code) \<Rightarrow> ('s, 'b) code" where
  "bindp (Return a) f = f a"
| "bindp (Throw e) f = (\<lambda>s. (Throw e, s))"
| "bindp (Await k) f =
     (\<lambda>s. (Await (\<lambda>s1. (\<lambda>(g, s2). g s2) (map_prod (\<lambda>p. bindp p f) id (k s1))), s))"

definition bind :: "('s, 'a) code \<Rightarrow> ('a \<Rightarrow> ('s, 'b) code) \<Rightarrow> ('s, 'b) code" where
  "bind m f = (\<lambda>s. case m s of (p, s') \<Rightarrow> bindp p f s')"

text \<open>\<^verbatim>\<open>try { m } catch (error) { h(error) }\<close>: a throw of the handler is not caught again.\<close>

primrec catchp :: "('s, 'a) proc \<Rightarrow> (js_error \<Rightarrow> ('s, 'a) code) \<Rightarrow> ('s, 'a) code" where
  "catchp (Return a) h = (\<lambda>s. (Return a, s))"
| "catchp (Throw e) h = h e"
| "catchp (Await k) h =
     (\<lambda>s. (Await (\<lambda>s1. (\<lambda>(g, s2). g s2) (map_prod (\<lambda>p. catchp p h) id (k s1))), s))"

definition try_catch :: "('s, 'a) code \<Rightarrow> (js_error \<Rightarrow> ('s, 'a) code) \<Rightarrow> ('s, 'a) code" where
  "try_catch m h = (\<lambda>s. case m s of (p, s') \<Rightarrow> catchp p h s')"

text \<open>
  \<^verbatim>\<open>await f()\<close> for an \<^verbatim>\<open>async\<close> function \<open>f\<close>: the caller is suspended until \<open>f\<close> has
  settled, and at least once, also when \<open>f\<close> settles without suspending.
\<close>

primrec settle :: "('s, 'a) proc \<Rightarrow> ('s, 'a) proc" where
  "settle (Return a) = Await (\<lambda>s. (Return a, s))"
| "settle (Throw e) = Await (\<lambda>s. (Throw e, s))"
| "settle (Await k) = Await (\<lambda>s. map_prod settle id (k s))"

definition await :: "('s, 'a) code \<Rightarrow> ('s, 'a) code" where
  "await m = (\<lambda>s. case m s of (p, s') \<Rightarrow> (settle p, s'))"

text \<open>Running a computation to its end with nothing else interleaved.\<close>

primrec run :: "('s, 'a) proc \<Rightarrow> 's \<Rightarrow> (js_error + 'a) \<times> 's" where
  "run (Return a) = (\<lambda>s. (Inr a, s))"
| "run (Throw e) = (\<lambda>s. (Inl e, s))"
| "run (Await k) = (\<lambda>s. (\<lambda>(g, s'). g s') (map_prod run id (k s)))"

declare bindp.simps(3) [simp del] catchp.simps(3) [simp del]
declare settle.simps(3) [simp del] run.simps(3) [simp del]

definition run_code :: "('s, 'a) code \<Rightarrow> 's \<Rightarrow> (js_error + 'a) \<times> 's" where
  "run_code m s = (case m s of (p, s') \<Rightarrow> run p s')"

text \<open>
  What a computation guarantees however it is interleaved: every resumption, in whatever
  state, changes the state within \<open>G\<close>, and a value it returns satisfies \<open>Q\<close>.
\<close>

inductive within :: "('s \<Rightarrow> 's \<Rightarrow> bool) \<Rightarrow> ('a \<Rightarrow> bool) \<Rightarrow> ('s, 'a) proc \<Rightarrow> bool"
  for G :: "'s \<Rightarrow> 's \<Rightarrow> bool" and Q :: "'a \<Rightarrow> bool" where
  within_Return: "Q a \<Longrightarrow> within G Q (Return a)"
| within_Throw: "within G Q (Throw e)"
| within_Await: "(\<And>s. G s (snd (k s)) \<and> within G Q (fst (k s))) \<Longrightarrow> within G Q (Await k)"

definition code_within :: "('s \<Rightarrow> 's \<Rightarrow> bool) \<Rightarrow> ('a \<Rightarrow> bool) \<Rightarrow> ('s, 'a) code \<Rightarrow> bool" where
  "code_within G Q m \<longleftrightarrow> (\<forall>s. G s (snd (m s)) \<and> within G Q (fst (m s)))"

definition refl_trans :: "('s \<Rightarrow> 's \<Rightarrow> bool) \<Rightarrow> bool" where
  "refl_trans G \<longleftrightarrow> (\<forall>s. G s s) \<and> (\<forall>a b c. G a b \<longrightarrow> G b c \<longrightarrow> G a c)"

section \<open>MCP client setup (index.ts, lines 31 to 226)\<close>

text \<open>
  A request to a library or remote service: it is issued now (the event is recorded) and
  the caller is suspended; the world answers when the caller is resumed.
\<close>

definition request ::
  "'j event \<Rightarrow> ('w \<Rightarrow> (js_error + 'r) \<times> 'w) \<Rightarrow> (('w, 'j) state, 'r) code" where
  "request ev op =
     (\<lambda>s. (Await (\<lambda>s1. case op (world s1) of
                         (Inl e, w') \<Rightarrow> (Throw e, s1\<lparr>world := w'\<rparr>)
                       | (Inr v, w') \<Rightarrow> (Return v, s1\<lparr>world := w'\<rparr>)),
           s\<lparr>events := events s @ [ev]\<rparr>))"

text \<open>\<^verbatim>\<open>mcpClient.m(...)\<close> reads the variable when the call is made; on \<^verbatim>\<open>null\<close> the
  property read throws a \<^verbatim>\<open>TypeError\<close>.\<close>

definition null_TypeError :: js_error where
  "null_TypeError = TypeError ''Cannot read properties of null''"

definition on_mcpClient ::
  "(handle \<Rightarrow> (('w, 'j) state, 'a) code) \<Rightarrow> (('w, 'j) state, 'a) code" where
  "on_mcpClient f =
     (\<lambda>s. case mcpClient s of None \<Rightarrow> (Throw null_TypeError, s) | Some c \<Rightarrow> f c s)"

text \<open>\<^verbatim>\<open>mcpTransport = new StreamableHTTPClientTransport(new URL(POLYMARKET_MCP_URL), ...)\<close>
  and \<^verbatim>\<open>mcpClient = new Client(...)\<close>: a fresh object each.\<close>

definition newTransport :: "('w, 'j) env \<Rightarrow> (('w, 'j) state, unit) code" where
  "newTransport P =
     (\<lambda>s. if url_valid P
          then (Return (), s\<lparr>mcpTransport := Some (nextHandle s), nextHandle := Suc (nextHandle s)\<rparr>)
          else (Throw (TypeError ''Invalid URL''), s))"

definition newClient :: "(('w, 'j) state, unit) code" where
  "newClient =
     (\<lambda>s. (Return (), s\<lparr>mcpClient := Some (nextHandle s), nextHandle := Suc (nextHandle s)\<rparr>))"

text \<open>Modelled from the spec: \<^verbatim>\<open>SimpleOAuthProvider\<close> is not among the sources. When the
  provider demands authorization, the request for it is recorded as pending.\<close>

definition redirectToAuthorization :: "('w, 'j) state \<Rightarrow> ('w, 'j) state" where
  "redirectToAuthorization s =
     s\<lparr>oauthProvider := map_option (\<lambda>p. p\<lparr>pendingAuth := True\<rparr>) (oauthProvider s)\<rparr>"

text \<open>Modelled from the spec: \<^verbatim>\<open>oauthProvider.clearPendingAuth()\<close> clears the marker.\<close>

definition clearPendingAuth :: "(('w, 'j) state, unit) code" where
  "clearPendingAuth =
     (\<lambda>s. (Return (),
           s\<lparr>oauthProvider := map_option (\<lambda>p. p\<lparr>pendingAuth := False\<rparr>) (oauthProvider s)\<rparr>))"

text \<open>\<^verbatim>\<open>await mcpClient.connect(mcpTransport)\<close>\<close>

definition mcpClient_connect :: "('w, 'j) env \<Rightarrow> (('w, 'j) state, unit) code" where
  "mcpClient_connect P =
     on_mcpClient (\<lambda>c s. case mcpTransport s of
         None \<Rightarrow> (Throw null_TypeError, s)
       | Some t \<Rightarrow>
           (Await (\<lambda>s1. case client_connect P c t (world s1) of
                      (Inl e, w') \<Rightarrow>
                        (Throw e, if instanceof_UnauthorizedError e
                                  then redirectToAuthorization (s1\<lparr>world := w'\<rparr>)
                                  else s1\<lparr>world := w'\<rparr>)
                    | (Inr v, w') \<Rightarrow> (Return v, s1\<lparr>world := w'\<rparr>)),
            s\<lparr>events := events s @ [Connect c t]\<rparr>))"

text \<open>\<^verbatim>\<open>availableTools = toolsResponse.tools.map(...)\<close>\<close>

definition setAvailableTools :: "'j mcp_tool list \<Rightarrow> (('w, 'j) state, unit) code" where
  "setAvailableTools ts = (\<lambda>s. (Return (), s\<lparr>availableTools := map toAnthropicTool ts\<rparr>))"

text \<open>\<^verbatim>\<open>initializeMCPClient\<close> (lines 36 to 125). The prompts and the resources are
  listed each in a \<^verbatim>\<open>try\<close> of its own, whose \<^verbatim>\<open>catch\<close> only logs.\<close>

definition initializeMCPClient :: "('w, 'j) env \<Rightarrow> (('w, 'j) state, unit) code" where
  "initializeMCPClient P =
     try_catch
       (bind (\<lambda>s. (Return (), s\<lparr>oauthProvider := Some \<lparr>pendingAuth = False\<rparr>\<rparr>)) (\<lambda>_.
        bind (request LoadSavedTokens (loadSavedTokens P)) (\<lambda>_.
        bind (newTransport P) (\<lambda>_.
        bind newClient (\<lambda>_.
        bind (mcpClient_connect P) (\<lambda>_.
        bind (on_mcpClient (\<lambda>c. request (ListTools c) (client_listTools P c))) (\<lambda>toolsResponse.
        bind (setAvailableTools toolsResponse) (\<lambda>_.
        bind (try_catch (on_mcpClient (\<lambda>c. request (ListPrompts c) (client_listPrompts P c)))
                        (\<lambda>error. return ())) (\<lambda>_.
        try_catch (on_mcpClient (\<lambda>c. request (ListResources c) (client_listResources P c)))
                  (\<lambda>error. return ()))))))))))
       (\<lambda>error. if instanceof_UnauthorizedError error then return () else throw error)"

text \<open>\<^verbatim>\<open>initializeTools\<close> (lines 127 to 170)\<close>

definition initializeTools :: "('w, 'j) env \<Rightarrow> (('w, 'j) state, unit) code" where
  "initializeTools P =
     (\<lambda>s. case mcpClient s of
            None \<Rightarrow> (Throw (Error ''MCP client not initialized''), s)
          | Some c \<Rightarrow>
              bind (on_mcpClient (\<lambda>c. request (ListTools c) (client_listTools P c))) (\<lambda>toolsResponse.
              bind (setAvailableTools toolsResponse) (\<lambda>_.
              bind (try_catch (on_mcpClient (\<lambda>c. request (ListPrompts c) (client_listPrompts P c)))
                              (\<lambda>error. return ())) (\<lambda>_.
              try_catch (on_mcpClient (\<lambda>c. request (ListResources c) (client_listResources P c)))
                        (\<lambda>error. return ())))) s)"

text \<open>The statements the two functions share word for word (lines 76 to 113 and 132 to
  169), named for the proofs.\<close>

definition listAndConvert :: "('w, 'j) env \<Rightarrow> (('w, 'j) state, unit) code" where
  "listAndConvert P =
     bind (on_mcpClient (\<lambda>c. request (ListTools c) (client_listTools P c))) (\<lambda>toolsResponse.
     bind (setAvailableTools toolsResponse) (\<lambda>_.
     bind (try_catch (on_mcpClient (\<lambda>c. request (ListPrompts c) (client_listPrompts P c)))
                     (\<lambda>error. return ())) (\<lambda>_.
     try_catch (on_mcpClient (\<lambda>c. request (ListResources c) (client_listResources P c)))
               (\<lambda>error. return ()))))"


text \<open>\<^verbatim>\<open>reconnectMCPSession\<close> (lines 191 to 226); the event \<open>Reconnecting\<close> stands for
  its first \<^verbatim>\<open>console.log\<close>.\<close>

definition reconnectMCPSession :: "('w, 'j) env \<Rightarrow> (('w, 'j) state, unit) code" where
  "reconnectMCPSession P =
     bind (\<lambda>s. (Return (), s\<lparr>events := events s @ [Reconnecting]\<rparr>)) (\<lambda>_.
     bind (\<lambda>s. case mcpClient s of
                 None \<Rightarrow> (Return (), s)
               | Some c \<Rightarrow> request (Close c) (client_close P c) s) (\<lambda>_.
     bind (\<lambda>s. case oauthProvider s of
                 None \<Rightarrow> (Throw (Error ''OAuth provider not initialized''), s)
               | Some p \<Rightarrow> (Return (), s)) (\<lambda>_.
     bind (newTransport P) (\<lambda>_.
     bind newClient (\<lambda>_.
     bind (mcpClient_connect P) (\<lambda>_.
     await (initializeTools P)))))))"

section \<open>Tool calls with reconnection (index.ts, lines 294 to 336)\<close>

definition maxRetries :: nat where
  "maxRetries = 2"

definition SESSION_EXPIRED :: string where
  "SESSION_EXPIRED = ''Session not found or expired''"

text \<open>
  The \<^verbatim>\<open>while (retries < maxRetries)\<close> loop of the callback given to
  \<^verbatim>\<open>toolUseBlocks.map\<close>, entered with the counter at \<open>retries\<close>. \<open>Some\<close> is the
  \<^verbatim>\<open>return\<close> inside the \<^verbatim>\<open>try\<close>; \<open>None\<close> is the loop ending because its condition
  is false.
\<close>

function retryLoop ::
  "('w, 'j) env \<Rightarrow> 'j tool_use_block \<Rightarrow> nat \<Rightarrow> (('w, 'j) state, tool_result option) code" where
  "retryLoop P toolUse retries =
     (if retries < maxRetries then
        try_catch
          (bind (on_mcpClient (\<lambda>c.
                   request (CallTool c (tool_name toolUse) (tool_input toolUse))
                           (client_callTool P c (tool_name toolUse) (tool_input toolUse))))
             (\<lambda>result. return (Some \<lparr>result_type = ''tool_result'',
                                      tool_use_id = tool_id toolUse,
                                      result_content = JSON_stringify P result\<rparr>)))
          (\<lambda>error.
             if string_includes (errorMessage error) SESSION_EXPIRED \<and> retries < maxRetries - 1
             then bind (await (reconnectMCPSession P)) (\<lambda>_. retryLoop P toolUse (retries + 1))
             else throw error)
      else return None)"
  by pat_completeness auto
termination
  by (relation "measure (\<lambda>(P, toolUse, retries). maxRetries - retries)") auto

declare retryLoop.simps [simp del]

text \<open>The whole callback: the loop from \<^verbatim>\<open>retries = 0\<close>, and the \<^verbatim>\<open>throw\<close> after it.\<close>

definition callToolWithRetry ::
  "('w, 'j) env \<Rightarrow> 'j tool_use_block \<Rightarrow> (('w, 'j) state, tool_result) code" where
  "callToolWithRetry P toolUse =
     bind (retryLoop P toolUse 0) (\<lambda>r. case r of
         Some toolResult \<Rightarrow> return toolResult
       | None \<Rightarrow> throw (Error (''Failed to call tool '' @ tool_name toolUse @ '' after 2 attempts'')))"

section \<open>\<^verbatim>\<open>Promise.all\<close> over the callbacks\<close>

text \<open>\<^verbatim>\<open>xs.map(async (x) => ...)\<close> starts the callbacks one after the other, each running
  up to its first suspension.\<close>

fun start_all :: "('s, 'a) code list \<Rightarrow> 's \<Rightarrow> ('s, 'a) proc list \<times> 's" where
  "start_all [] s = ([], s)"
| "start_all (m # ms) s =
     (case m s of (p, s') \<Rightarrow> (case start_all ms s' of (ps, s'') \<Rightarrow> (p # ps, s'')))"

fun thrown :: "('s, 'a) proc \<Rightarrow> js_error option" where
  "thrown (Throw e) = Some e"
| "thrown (Return a) = None"
| "thrown (Await k) = None"

text \<open>The rejection of \<^verbatim>\<open>Promise.all\<close>, if one of the promises has rejected.\<close>

definition rejected :: "('s, 'a) proc list \<Rightarrow> js_error option" where
  "rejected ps = (case List.map_filter thrown ps of [] \<Rightarrow> None | e # es \<Rightarrow> Some e)"

text \<open>
  The suspended callbacks are resumed in an order the program does not control: a
  schedule names, step by step, the callback whose awaited request completes next. It
  stops at the first rejection, as \<^verbatim>\<open>Promise.all\<close> rejects then.
\<close>

fun interleave :: "nat list \<Rightarrow> ('s, 'a) proc list \<Rightarrow> 's \<Rightarrow> ('s, 'a) proc list \<times> 's" where
  "interleave [] ps s = (ps, s)"
| "interleave (i # sched) ps s =
     (if rejected ps \<noteq> None then (ps, s)
      else if i < length ps then
        (case ps ! i of
           Await k \<Rightarrow> (case k s of (p', s') \<Rightarrow> interleave sched (ps[i := p']) s')
         | Return a \<Rightarrow> interleave sched ps s
         | Throw e \<Rightarrow> interleave sched ps s)
      else interleave sched ps s)"

text \<open>After the schedule, what is still suspended runs to its end, in index order.\<close>

fun drain :: "('s, 'a) proc list \<Rightarrow> 's \<Rightarrow> (js_error + 'a list) \<times> 's" where
  "drain [] s = (Inr [], s)"
| "drain (p # ps) s =
     (case run p s of
        (Inl e, s') \<Rightarrow> (Inl e, s')
      | (Inr a, s') \<Rightarrow>
          (case drain ps s' of
             (Inl e, s'') \<Rightarrow> (Inl e, s'')
           | (Inr as, s'') \<Rightarrow> (Inr (a # as), s'')))"

text \<open>
  \<^verbatim>\<open>await Promise.all(ms)\<close>: the values in the order of the callbacks, or the first
  rejection. The callbacks still suspended at a rejection are left out here; in the
  program they go on in the background, with no effect on the turn that was rejected.
\<close>

definition Promise_all ::
  "nat list \<Rightarrow> ('s, 'a) code list \<Rightarrow> 's \<Rightarrow> (js_error + 'a list) \<times> 's" where
  "Promise_all sched ms s =
     (case start_all ms s of (ps, s0) \<Rightarrow>
        (case interleave sched ps s0 of (ps', s1) \<Rightarrow>
           (case rejected ps' of Some e \<Rightarrow> (Inl e, s1) | None \<Rightarrow> drain ps' s1)))"

section \<open>The conversation with the model (index.ts, lines 241 to 376)\<close>

text \<open>\<^verbatim>\<open>await anthropic.messages.create(params)\<close>\<close>

definition create ::
  "('w, 'j) env \<Rightarrow> 'j create_params \<Rightarrow> ('w, 'j) state \<Rightarrow> (js_error + 'j response) \<times> ('w, 'j) state" where
  "create P params s =
     (case messages_create P params (world s) of
        (r, w') \<Rightarrow> (r, s\<lparr>world := w', events := events s @ [CreateMessage params]\<rparr>))"

definition create_params ::
  "bool \<Rightarrow> 'j message_param list \<Rightarrow> 'j anthropic_tool list \<Rightarrow> 'j create_params" where
  "create_params sys msgs ts =
     \<lparr>model = ''claude-haiku-4-5'', max_tokens = 4096, with_system = sys,
      messages = msgs, tools = ts\<rparr>"

text \<open>\<^verbatim>\<open>response.content.filter((block) => block.type === "tool_use")\<close>\<close>

definition toolUseBlocksOf :: "'j response \<Rightarrow> 'j tool_use_block list" where
  "toolUseBlocksOf response =
     List.map_filter (\<lambda>block. case block of ToolUseBlock t \<Rightarrow> Some t | _ \<Rightarrow> None)
       (response_content response)"

text \<open>
  One pass through the body of \<^verbatim>\<open>while (response.stop_reason === "tool_use")\<close> from
  the first \<^verbatim>\<open>messages.push\<close> to the second (lines 287 to 342), for a response with at
  least one tool-use block. The message list is a local variable of the turn; it is
  returned so that its content can be stated.
\<close>

definition callTools ::
  "('w, 'j) env \<Rightarrow> nat list \<Rightarrow> 'j response \<Rightarrow> 'j message_param list \<Rightarrow> ('w, 'j) state \<Rightarrow>
     (js_error + unit) \<times> 'j message_param list \<times> ('w, 'j) state" where
  "callTools P sched response msgs s =
     (let msgs1 = msgs @ [\<lparr>role = Assistant, content = BlockContent (response_content response)\<rparr>]
      in case Promise_all sched (map (callToolWithRetry P) (toolUseBlocksOf response)) s of
           (Inl e, s1) \<Rightarrow> (Inl e, msgs1, s1)
         | (Inr toolResults, s1) \<Rightarrow>
             (Inr (), msgs1 @ [\<lparr>role = User, content = ToolResultContent toolResults\<rparr>], s1))"

text \<open>
  The \<^verbatim>\<open>while\<close> loop (lines 279 to 350). Nothing bounds the number of rounds in which
  the model asks for tools, so the loop takes fuel, one unit for each test of its
  condition, and \<open>None\<close> says that the fuel ran out. The \<open>n\<close>-th round of tool calls is
  interleaved by the \<open>n\<close>-th schedule.
\<close>

fun toolUseLoop ::
  "nat \<Rightarrow> ('w, 'j) env \<Rightarrow> nat list list \<Rightarrow> 'j response \<Rightarrow> 'j message_param list \<Rightarrow>
     ('w, 'j) state \<Rightarrow> ((js_error + 'j response) \<times> 'j message_param list \<times> ('w, 'j) state) option" where
  "toolUseLoop 0 P scheds response msgs s = None"
| "toolUseLoop (Suc fuel) P scheds response msgs s =
     (if stop_reason response = ''tool_use'' then
        if toolUseBlocksOf response = [] then Some (Inr response, msgs, s)
        else
          (case callTools P (case scheds of [] \<Rightarrow> [] | sched # _ \<Rightarrow> sched) response msgs s of
             (Inl e, msgs1, s1) \<Rightarrow> Some (Inl e, msgs1, s1)
           | (Inr _, msgs2, s1) \<Rightarrow>
               (case create P (create_params False msgs2 (availableTools s1)) s1 of
                  (Inl e, s2) \<Rightarrow> Some (Inl e, msgs2, s2)
                | (Inr response', s2) \<Rightarrow> toolUseLoop fuel P (tl scheds) response' msgs2 s2))
      else Some (Inr response, msgs, s))"

text \<open>The body of the \<^verbatim>\<open>try\<close> up to the end of the loop (lines 247 to 350): the final
  response, or the error that was thrown.\<close>

definition converse ::
  "nat \<Rightarrow> ('w, 'j) env \<Rightarrow> nat list list \<Rightarrow> string \<Rightarrow> history_message list \<Rightarrow> ('w, 'j) state \<Rightarrow>
     ((js_error + 'j response) \<times> 'j message_param list \<times> ('w, 'j) state) option" where
  "converse fuel P scheds userMessage conversationHistory s =
     (let msgs = map (\<lambda>msg. \<lparr>role = hist_role msg, content = StringContent (hist_content msg)\<rparr>)
                     conversationHistory
                 @ [\<lparr>role = User, content = StringContent userMessage\<rparr>]
      in case create P (create_params True msgs (availableTools s)) s of
           (Inl e, s1) \<Rightarrow> Some (Inl e, msgs, s1)
         | (Inr response, s1) \<Rightarrow> toolUseLoop fuel P scheds response msgs s1)"

text \<open>\<^verbatim>\<open>ws.send(data)\<close>\<close>

definition ws_send :: "websocket \<Rightarrow> string \<Rightarrow> ('w, 'j) state \<Rightarrow> ('w, 'j) state" where
  "ws_send ws data s = s\<lparr>sent := (sent s)(ws := sent s ws @ [data])\<rparr>"

text \<open>\<^verbatim>\<open>response.content.find((block) => block.type === "text")\<close>\<close>

fun find_text :: "'j content_block list \<Rightarrow> string option" where
  "find_text [] = None"
| "find_text (TextBlock t # blocks) = Some t"
| "find_text (ToolUseBlock u # blocks) = find_text blocks"
| "find_text (OtherBlock # blocks) = find_text blocks"

text \<open>\<^verbatim>\<open>for (let i = 0; i < words.length; i++)\<close> (lines 362 to 367), entered at \<open>i\<close>.\<close>

function sendWords :: "string list \<Rightarrow> nat \<Rightarrow> websocket \<Rightarrow> ('w, 'j) state \<Rightarrow> ('w, 'j) state" where
  "sendWords words i ws s =
     (if i < length words
      then sendWords words (i + 1) ws
             (ws_send ws (if i = length words - 1 then words ! i else words ! i @ '' '') s)
      else s)"
  by pat_completeness auto
termination
  by (relation "measure (\<lambda>(words, i, ws, s). length words - i)") auto

declare sendWords.simps [simp del]

definition errorChunk :: "js_error \<Rightarrow> string" where
  "errorChunk error =
     ''Error: '' @ (if instanceof_Error error then message error else ''Unknown error'')"

definition processMessageWithClaude ::
  "nat \<Rightarrow> ('w, 'j) env \<Rightarrow> nat list list \<Rightarrow> string \<Rightarrow> history_message list \<Rightarrow> websocket \<Rightarrow>
     ('w, 'j) state \<Rightarrow> ('w, 'j) state option" where
  "processMessageWithClaude fuel P scheds userMessage conversationHistory ws s =
     (case converse fuel P scheds userMessage conversationHistory s of
        None \<Rightarrow> None
      | Some (Inr response, msgs, s1) \<Rightarrow>
          Some (ws_send ws ''[END]''
                  (case find_text (response_content response) of
                     Some fullText \<Rightarrow> sendWords (split CHR '' '' fullText) 0 ws s1
                   | None \<Rightarrow> s1))
      | Some (Inl error, msgs, s1) \<Rightarrow>
          Some (ws_send ws ''[END]'' (ws_send ws (errorChunk error) s1)))"

section \<open>The HTTP and WebSocket server (index.ts, lines 382 to 548)\<close>

record health =
  status :: string
  mcpConnected :: bool
  toolsAvailable :: nat

text \<open>\<^verbatim>\<open>app.get("/health", ...)\<close>\<close>

definition get_health :: "('w, 'j) state \<Rightarrow> health" where
  "get_health s =
     \<lparr>status = ''ok'', mcpConnected = (mcpClient s \<noteq> None),
      toolsAvailable = length (availableTools s)\<rparr>"

text \<open>\<^verbatim>\<open>wss.on("connection", ...)\<close> and the handlers it installs on the socket.\<close>

definition on_connection :: "websocket \<Rightarrow> ('w, 'j) state \<Rightarrow> ('w, 'j) state" where
  "on_connection ws s = s\<lparr>conversationHistories := (conversationHistories s)(ws \<mapsto> [])\<rparr>"

definition on_close :: "websocket \<Rightarrow> ('w, 'j) state \<Rightarrow> ('w, 'j) state" where
  "on_close ws s = s\<lparr>conversationHistories := (conversationHistories s)(ws := None)\<rparr>"

text \<open>
  \<^verbatim>\<open>ws.on("message", ...)\<close>: \<^verbatim>\<open>history\<close> is the array stored for the socket, so the
  \<^verbatim>\<open>push\<close> changes the stored array; without a stored array it is a fresh one that
  is stored nowhere. \<^verbatim>\<open>history.slice(0, -1)\<close> is a copy without the last element.
\<close>

definition on_message ::
  "nat \<Rightarrow> ('w, 'j) env \<Rightarrow> nat list list \<Rightarrow> websocket \<Rightarrow> string \<Rightarrow> ('w, 'j) state \<Rightarrow>
     ('w, 'j) state option" where
  "on_message fuel P scheds ws userMessage s =
     (let pushed = \<lparr>hist_role = User, hist_content = userMessage\<rparr> in
      case conversationHistories s ws of
        Some history \<Rightarrow>
          processMessageWithClaude fuel P scheds userMessage (butlast (history @ [pushed])) ws
            (s\<lparr>conversationHistories := (conversationHistories s)(ws \<mapsto> history @ [pushed])\<rparr>)
      | None \<Rightarrow>
          processMessageWithClaude fuel P scheds userMessage (butlast ([] @ [pushed])) ws s)"

text \<open>\<^verbatim>\<open>startup()\<close>: a failure of \<^verbatim>\<open>initializeMCPClient\<close> ends the process.\<close>

definition startup :: "('w, 'j) env \<Rightarrow> (('w, 'j) state, unit) code" where
  "startup P =
     try_catch (await (initializeMCPClient P))
       (\<lambda>error s. (Return (), s\<lparr>exitCode := Some 1\<rparr>))"

text \<open>The module-level variables as they are initialised, in a world \<open>w\<close>.\<close>

definition initial_state :: "'w \<Rightarrow> ('w, 'j) state" where
  "initial_state w =
     \<lparr>mcpClient = None, mcpTransport = None, oauthProvider = None, availableTools = [],
      conversationHistories = Map.empty, sent = (\<lambda>ws. []), exitCode = None,
      world = w, events = [], nextHandle = 0\<rparr>"

section \<open>What setting up the client and calling tools leave alone\<close>

text \<open>
  From \<open>s\<close> to \<open>s'\<close> the stored conversations, the messages sent to the sockets and
  the exit code are the same, a client object that existed still exists, and events
  were only added.
\<close>

definition frame :: "('w, 'j) state \<Rightarrow> ('w, 'j) state \<Rightarrow> bool" where
  "frame s s' \<longleftrightarrow>
     conversationHistories s' = conversationHistories s \<and> sent s' = sent s \<and>
     exitCode s' = exitCode s \<and> (mcpClient s \<noteq> None \<longrightarrow> mcpClient s' \<noteq> None) \<and>
     (\<exists>evs. events s' = events s @ evs)"

text \<open>A tool result that answers the tool-use block \<open>toolUse\<close>.\<close>

definition answers :: "'j tool_use_block \<Rightarrow> tool_result \<Rightarrow> bool" where
  "answers toolUse r \<longleftrightarrow> result_type r = ''tool_result'' \<and> tool_use_id r = tool_id toolUse"

section \<open>The earlier backend over a WebSocket transport\<close>

text \<open>
  The repository holds an earlier version of the backend, which connects over a
  \<^verbatim>\<open>WebSocketClientTransport\<close> and has no OAuth and no reconnection. The body of
  its tool loop (lines 147 to 188 of that file) takes the first tool-use block only, \<^verbatim>\<open>response.content.find((block) => block.type === "tool_use")\<close>, calls
  the tool once with no retry, and then pushes the assistant message and a tool-result
  message with that one result.
\<close>

definition callFirstTool ::
  "('w, 'j) env \<Rightarrow> 'j response \<Rightarrow> 'j message_param list \<Rightarrow> ('w, 'j) state \<Rightarrow>
     (js_error + unit) \<times> 'j message_param list \<times> ('w, 'j) state" where
  "callFirstTool P response msgs s =
     (case toolUseBlocksOf response of
        [] \<Rightarrow> (Inr (), msgs, s)
      | toolUse # others \<Rightarrow>
          (case run_code (on_mcpClient (\<lambda>c.
                   request (CallTool c (tool_name toolUse) (tool_input toolUse))
                           (client_callTool P c (tool_name toolUse) (tool_input toolUse)))) s of
             (Inl e, s1) \<Rightarrow> (Inl e, msgs, s1)
           | (Inr toolResult, s1) \<Rightarrow>
               (Inr (),
                msgs @ [\<lparr>role = Assistant, content = BlockContent (response_content response)\<rparr>,
                        \<lparr>role = User, content = ToolResultContent
                           [\<lparr>result_type = ''tool_result'', tool_use_id = tool_id toolUse,
                             result_content = JSON_stringify P toolResult\<rparr>]\<rparr>],
                s1)))"

section \<open>A simulated provider and model, for concrete runs\<close>

text \<open>
  The server knows the sessions it still accepts, whether the client is authorized, and
  whether it keeps a session once connected. A request on a session it does not accept
  fails with the session-expiry text; prompts and resources are not supported.
\<close>

record sim_world =
  live :: "handle list"
  authorized :: bool
  keeps_sessions :: bool

definition sim_expired :: js_error where
  "sim_expired = Error ''Error POSTing to endpoint (HTTP 404): Session not found or expired''"

definition sim_unauthorized :: js_error where
  "sim_unauthorized =
     \<lparr>instanceof_Error = True, instanceof_UnauthorizedError = True,
      message = ''Unauthorized'', toString = ''Error: Unauthorized''\<rparr>"

definition sim_tools :: "string mcp_tool list" where
  "sim_tools =
     [\<lparr>mcp_name = ''search_markets'', mcp_description = Some ''Search markets'', inputSchema = ''{}''\<rparr>,
      \<lparr>mcp_name = ''get_trending'', mcp_description = None, inputSchema = ''{}''\<rparr>]"

text \<open>The model asks for two tools on any user text but \<open>hello\<close> (it answers at once) and
  \<open>crash\<close> (the request fails), and answers once it has the tool results.\<close>

definition sim_model :: "string create_params \<Rightarrow> (js_error + string response)" where
  "sim_model params =
     (case content (last (messages params)) of
        StringContent m \<Rightarrow>
          if m = ''hello'' then
            Inr \<lparr>stop_reason = ''end_turn'', response_content = [TextBlock ''Hello there, trader'']\<rparr>
          else if m = ''crash'' then Inl (Error ''Overloaded'')
          else
            Inr \<lparr>stop_reason = ''tool_use'',
                 response_content =
                   [TextBlock ''Let me check.'',
                    ToolUseBlock \<lparr>tool_id = ''toolu_1'', tool_name = ''search_markets'', tool_input = m\<rparr>,
                    ToolUseBlock \<lparr>tool_id = ''toolu_2'', tool_name = ''get_trending'', tool_input = ''{}''\<rparr>]\<rparr>
      | BlockContent blocks \<Rightarrow> Inl (Error ''Bad request'')
      | ToolResultContent results \<Rightarrow>
          Inr \<lparr>stop_reason = ''end_turn'', response_content = [TextBlock ''Two markets are open'']\<rparr>)"

definition sim :: "(sim_world, string) env" where
  "sim =
     \<lparr>url_valid = True,
      loadSavedTokens = (\<lambda>w. (Inr (), w)),
      client_connect = (\<lambda>c t w.
         if authorized w then (Inr (), if keeps_sessions w then w\<lparr>live := c # live w\<rparr> else w)
         else (Inl sim_unauthorized, w)),
      client_close = (\<lambda>c w. (Inr (), w\<lparr>live := removeAll c (live w)\<rparr>)),
      client_listTools = (\<lambda>c w.
         if authorized w then (Inr sim_tools, w) else (Inl sim_unauthorized, w)),
      client_listPrompts = (\<lambda>c w. (Inl (Error ''Method not found''), w)),
      client_listResources = (\<lambda>c w. (Inl (Error ''Method not found''), w)),
      client_callTool = (\<lambda>c name input w.
         if c \<notin> set (live w) then (Inl sim_expired, w)
         else if input = ''bad'' then (Inl (Error ''Invalid arguments''), w)
         else (Inr (name @ '':'' @ input), w)),
      transport_finishAuth = (\<lambda>t code w.
         if code = ''valid'' then (Inr (), w\<lparr>authorized := True\<rparr>)
         else (Inl (Error ''invalid_grant''), w)),
      messages_create = (\<lambda>params w. (sim_model params, w)),
      JSON_stringify = (\<lambda>j. j)\<rparr>"

text \<open>A server that has dropped every session, and a process whose client \<open>c\<close> was
  connected over transport \<open>t\<close>.\<close>

definition sim_server :: "bool \<Rightarrow> bool \<Rightarrow> handle list \<Rightarrow> sim_world" where
  "sim_server auth keeps sessions = \<lparr>live = sessions, authorized = auth, keeps_sessions = keeps\<rparr>"

definition connected_state :: "'w \<Rightarrow> ('w, 'j) state" where
  "connected_state w =
     \<lparr>mcpClient = Some 1, mcpTransport = Some 0, oauthProvider = Some \<lparr>pendingAuth = False\<rparr>,
      availableTools = [], conversationHistories = Map.empty, sent = (\<lambda>ws. []),
      exitCode = None, world = w, events = [], nextHandle = 2\<rparr>"

section \<open>Facts about the combinators\<close>

lemma bindp_Await [simp]:
  "bindp (Await k) f s = (Await (\<lambda>s1. case k s1 of (p, s2) \<Rightarrow> bindp p f s2), s)"
  by (simp add: case_prod_beta bindp.simps(3))

lemma catchp_Await [simp]:
  "catchp (Await k) h s = (Await (\<lambda>s1. case k s1 of (p, s2) \<Rightarrow> catchp p h s2), s)"
  by (simp add: case_prod_beta catchp.simps(3))

lemma run_Await [simp]: "run (Await k) s = (case k s of (p, s') \<Rightarrow> run p s')"
  by (simp add: case_prod_beta run.simps(3))

lemma settle_Await [simp]:
  "settle (Await k) = Await (\<lambda>s. case k s of (p, s') \<Rightarrow> (settle p, s'))"
  by (simp add: map_prod_def settle.simps(3))

lemma proc_step_induct [consumes 0, case_names Return Throw Await]:
  assumes "\<And>a. P (Return a)" and "\<And>e. P (Throw e)"
    and "\<And>k. (\<And>s. P (fst (k s))) \<Longrightarrow> P (Await k)"
  shows "P p"
proof (induction p)
  case (Await k)
  have "P (fst (k s))" for s
    by (rule Await.IH [of "k s"]) (auto simp: prod_set_defs intro: rangeI)
  then show ?case by (rule assms(3))
qed (rule assms)+

lemma run_bindp:
  "run (fst (bindp p f s)) (snd (bindp p f s)) =
     (case run p s of (Inl e, s') \<Rightarrow> (Inl e, s') | (Inr a, s') \<Rightarrow> run_code (f a) s')"
proof (induction p arbitrary: s rule: proc_step_induct)
  case (Await k)
  show ?case using Await [of s "snd (k s)"] by (simp add: case_prod_beta)
qed (simp_all add: run_code_def case_prod_beta)

lemma run_catchp:
  "run (fst (catchp p h s)) (snd (catchp p h s)) =
     (case run p s of (Inl e, s') \<Rightarrow> run_code (h e) s' | (Inr a, s') \<Rightarrow> (Inr a, s'))"
proof (induction p arbitrary: s rule: proc_step_induct)
  case (Await k)
  show ?case using Await [of s "snd (k s)"] by (simp add: case_prod_beta)
qed (simp_all add: run_code_def case_prod_beta)

lemma run_settle: "run (settle p) s = run p s"
proof (induction p arbitrary: s rule: proc_step_induct)
  case (Await k)
  show ?case using Await [of s "snd (k s)"] by (simp add: case_prod_beta)
qed simp_all

lemma run_code_return [simp]: "run_code (return a) s = (Inr a, s)"
  by (simp add: run_code_def return_def)

lemma run_code_throw [simp]: "run_code (throw e) s = (Inl e, s)"
  by (simp add: run_code_def throw_def)

lemma run_code_bind:
  "run_code (bind m f) s =
     (case run_code m s of (Inl e, s') \<Rightarrow> (Inl e, s') | (Inr a, s') \<Rightarrow> run_code (f a) s')"
  using run_bindp [of "fst (m s)" f "snd (m s)"]
  by (simp add: run_code_def bind_def case_prod_beta)

lemma run_code_try_catch:
  "run_code (try_catch m h) s =
     (case run_code m s of (Inl e, s') \<Rightarrow> run_code (h e) s' | (Inr a, s') \<Rightarrow> (Inr a, s'))"
  using run_catchp [of "fst (m s)" h "snd (m s)"]
  by (simp add: run_code_def try_catch_def case_prod_beta)

lemma run_code_await [simp]: "run_code (await m) s = run_code m s"
  by (simp add: run_code_def await_def case_prod_beta run_settle)

lemma run_code_request:
  "run_code (request ev op) s =
     (case op (world s) of (r, w') \<Rightarrow> (r, s\<lparr>world := w', events := events s @ [ev]\<rparr>))"
  by (simp add: run_code_def request_def split: prod.splits sum.splits)

lemma refl_transD:
  assumes "refl_trans G"
  shows "G s s" and "G a b \<Longrightarrow> G b c \<Longrightarrow> G a c"
  using assms unfolding refl_trans_def by blast+

lemma within_Await_iff [simp]:
  "within G Q (Await k) \<longleftrightarrow> (\<forall>s. G s (snd (k s)) \<and> within G Q (fst (k s)))"
  by (auto intro: within.intros elim: within.cases)

lemma within_Return_iff [simp]: "within G Q (Return a) \<longleftrightarrow> Q a"
  by (auto intro: within.intros elim: within.cases)

lemma within_Throw_iff [simp]: "within G Q (Throw e)"
  by (rule within_Throw)

lemma code_within_return: "refl_trans G \<Longrightarrow> Q a \<Longrightarrow> code_within G Q (return a)"
  by (simp add: code_within_def return_def refl_transD)

lemma code_within_throw: "refl_trans G \<Longrightarrow> code_within G Q (throw e)"
  by (simp add: code_within_def throw_def refl_transD)

lemma within_bindp:
  assumes G: "refl_trans G" and f: "\<And>a. Q a \<Longrightarrow> code_within G Q' (f a)"
  shows "within G Q p \<Longrightarrow> G s (snd (bindp p f s)) \<and> within G Q' (fst (bindp p f s))"
proof (induction p arbitrary: s rule: proc_step_induct)
  case (Return a)
  then show ?case using f [of a] by (simp add: code_within_def)
next
  case (Throw e)
  show ?case by (simp add: refl_transD [OF G])
next
  case (Await k)
  have step: "G s1 (snd (bindp (fst (k s1)) f (snd (k s1))))
        \<and> within G Q' (fst (bindp (fst (k s1)) f (snd (k s1))))" for s1
  proof -
    from Await.prems have k: "G s1 (snd (k s1))" "within G Q (fst (k s1))" by simp_all
    from Await.IH [OF k(2), of "snd (k s1)"] k(1) show ?thesis
      by (blast intro: refl_transD(2) [OF G])
  qed
  show ?case using step by (simp add: case_prod_beta refl_transD(1) [OF G])
qed

lemma code_within_bind:
  assumes "refl_trans G" "code_within G Q m" "\<And>a. Q a \<Longrightarrow> code_within G Q' (f a)"
  shows "code_within G Q' (bind m f)"
  unfolding code_within_def bind_def
proof (intro allI)
  fix s
  from assms(2) have m: "G s (snd (m s))" "within G Q (fst (m s))"
    by (simp_all add: code_within_def)
  from within_bindp [OF assms(1) assms(3) m(2), where s = "snd (m s)"] m(1)
  show "G s (snd (case m s of (p, s') \<Rightarrow> bindp p f s')) \<and>
        within G Q' (fst (case m s of (p, s') \<Rightarrow> bindp p f s'))"
    by (auto simp: case_prod_beta intro: refl_transD(2) [OF assms(1)])
qed

lemma within_catchp:
  assumes G: "refl_trans G" and h: "\<And>e. code_within G Q (h e)"
  shows "within G Q p \<Longrightarrow> G s (snd (catchp p h s)) \<and> within G Q (fst (catchp p h s))"
proof (induction p arbitrary: s rule: proc_step_induct)
  case (Return a)
  then show ?case by (simp add: refl_transD [OF G])
next
  case (Throw e)
  show ?case using h [of e] by (simp add: code_within_def)
next
  case (Await k)
  have step: "G s1 (snd (catchp (fst (k s1)) h (snd (k s1))))
        \<and> within G Q (fst (catchp (fst (k s1)) h (snd (k s1))))" for s1
  proof -
    from Await.prems have k: "G s1 (snd (k s1))" "within G Q (fst (k s1))" by simp_all
    from Await.IH [OF k(2), of "snd (k s1)"] k(1) show ?thesis
      by (blast intro: refl_transD(2) [OF G])
  qed
  show ?case using step by (simp add: case_prod_beta refl_transD(1) [OF G])
qed

lemma code_within_try_catch:
  assumes "refl_trans G" "code_within G Q m" "\<And>e. code_within G Q (h e)"
  shows "code_within G Q (try_catch m h)"
  unfolding code_within_def try_catch_def
proof (intro allI)
  fix s
  from assms(2) have m: "G s (snd (m s))" "within G Q (fst (m s))"
    by (simp_all add: code_within_def)
  from within_catchp [OF assms(1) assms(3) m(2), where s = "snd (m s)"] m(1)
  show "G s (snd (case m s of (p, s') \<Rightarrow> catchp p h s')) \<and>
        within G Q (fst (case m s of (p, s') \<Rightarrow> catchp p h s'))"
    by (auto simp: case_prod_beta intro: refl_transD(2) [OF assms(1)])
qed

lemma within_settle:
  assumes G: "refl_trans G"
  shows "within G Q p \<Longrightarrow> within G Q (settle p)"
proof (induction p rule: proc_step_induct)
  case (Await k)
  then show ?case by (simp add: case_prod_beta)
qed (simp_all add: refl_transD [OF G])

lemma code_within_await:
  assumes "refl_trans G" "code_within G Q m"
  shows "code_within G Q (await m)"
  using assms(2) within_settle [OF assms(1), of Q]
  by (auto simp: code_within_def await_def case_prod_beta)

lemma code_within_weaken:
  assumes "code_within G Q m" "\<And>a. Q a \<Longrightarrow> Q' a"
  shows "code_within G Q' m"
proof -
  have "within G Q p \<Longrightarrow> within G Q' p" for p
    by (induction p rule: proc_step_induct) (simp_all add: assms(2))
  with assms(1) show ?thesis by (simp add: code_within_def)
qed

lemma within_run:
  assumes G: "refl_trans G"
  shows "within G Q p \<Longrightarrow> G s (snd (run p s)) \<and> (\<forall>a. fst (run p s) = Inr a \<longrightarrow> Q a)"
proof (induction p arbitrary: s rule: proc_step_induct)
  case (Await k)
  from Await.prems have k: "G s (snd (k s))" "within G Q (fst (k s))" by simp_all
  from Await.IH [OF k(2), of "snd (k s)"] k(1) show ?case
    by (auto simp: case_prod_beta intro: refl_transD(2) [OF G])
qed (simp_all add: refl_transD [OF G])

lemma refl_trans_frame: "refl_trans (frame :: ('w, 'j) state \<Rightarrow> ('w, 'j) state \<Rightarrow> bool)"
  unfolding refl_trans_def frame_def by auto

lemmas frame_refl = refl_transD(1) [OF refl_trans_frame]
lemmas frame_trans = refl_transD(2) [OF refl_trans_frame]

lemma frame_simps [simp]:
  "frame s (s\<lparr>world := w\<rparr>)"
  "frame s (s\<lparr>events := events s @ evs\<rparr>)"
  "frame s (s\<lparr>availableTools := ts\<rparr>)"
  "frame s (s\<lparr>oauthProvider := p\<rparr>)"
  "frame s (s\<lparr>mcpTransport := t, nextHandle := n\<rparr>)"
  "frame s (s\<lparr>mcpClient := Some c, nextHandle := n\<rparr>)"
  "frame s s"
  by (simp_all add: frame_def)

lemma frame_request: "code_within frame (\<lambda>_. True) (request ev op)"
  by (auto simp: code_within_def request_def split: prod.splits sum.splits)

lemma frame_on_mcpClient:
  "(\<And>c. code_within frame Q (f c)) \<Longrightarrow> code_within frame Q (on_mcpClient f)"
  by (auto simp: code_within_def on_mcpClient_def split: option.splits)

lemma frame_newTransport: "code_within frame (\<lambda>_. True) (newTransport P)"
  by (simp add: code_within_def newTransport_def)

lemma frame_newClient: "code_within frame (\<lambda>_. True) newClient"
  by (simp add: code_within_def newClient_def)

lemma frame_clearPendingAuth: "code_within frame (\<lambda>_. True) clearPendingAuth"
  by (simp add: code_within_def clearPendingAuth_def)

lemma frame_setAvailableTools: "code_within frame (\<lambda>_. True) (setAvailableTools ts)"
  by (simp add: code_within_def setAvailableTools_def)

lemma frame_redirect: "frame s1 s2 \<Longrightarrow> frame s1 (redirectToAuthorization s2)"
  by (simp add: frame_def redirectToAuthorization_def)

lemma frame_mcpClient_connect: "code_within frame (\<lambda>_. True) (mcpClient_connect P)"
  unfolding mcpClient_connect_def
  by (rule frame_on_mcpClient)
     (auto simp: code_within_def frame_redirect split: option.splits prod.splits sum.splits)

lemma frame_bind:
  assumes "code_within frame (\<lambda>_. True) m" "\<And>a. code_within frame Q (f a)"
  shows "code_within frame Q (bind m f)"
  by (rule code_within_bind [OF refl_trans_frame assms(1)]) (rule assms(2))
lemmas frame_try_catch = code_within_try_catch [OF refl_trans_frame]
lemmas frame_await = code_within_await [OF refl_trans_frame]
lemmas frame_return = code_within_return [OF refl_trans_frame]
lemmas frame_throw = code_within_throw [OF refl_trans_frame]

lemma initializeTools_eq:
  "initializeTools P =
     (\<lambda>s. case mcpClient s of
            None \<Rightarrow> (Throw (Error ''MCP client not initialized''), s)
          | Some c \<Rightarrow> listAndConvert P s)"
  unfolding initializeTools_def listAndConvert_def by (rule refl)

lemma initializeMCPClient_eq:
  "initializeMCPClient P =
     try_catch
       (bind (\<lambda>s. (Return (), s\<lparr>oauthProvider := Some \<lparr>pendingAuth = False\<rparr>\<rparr>)) (\<lambda>_.
        bind (request LoadSavedTokens (loadSavedTokens P)) (\<lambda>_.
        bind (newTransport P) (\<lambda>_.
        bind newClient (\<lambda>_.
        bind (mcpClient_connect P) (\<lambda>_.
        listAndConvert P))))))
       (\<lambda>error. if instanceof_UnauthorizedError error then return () else throw error)"
  unfolding initializeMCPClient_def listAndConvert_def by (rule refl)

lemma frame_listAndConvert: "code_within frame (\<lambda>_. True) (listAndConvert P)"
  unfolding listAndConvert_def
  by (intro frame_bind frame_try_catch frame_on_mcpClient frame_request
        frame_setAvailableTools frame_return) simp_all

lemma frame_initializeTools: "code_within frame (\<lambda>_. True) (initializeTools P)"
  using frame_listAndConvert [of P]
  by (auto simp: code_within_def initializeTools_eq split: option.splits)

lemma frame_reconnectMCPSession: "code_within frame (\<lambda>_. True) (reconnectMCPSession P)"
  unfolding reconnectMCPSession_def
proof (intro frame_bind frame_await frame_initializeTools frame_mcpClient_connect
        frame_newClient frame_newTransport)
  show "code_within frame (\<lambda>_. True) (\<lambda>s. (Return (), s\<lparr>events := events s @ [Reconnecting]\<rparr>))"
    by (simp add: code_within_def)
  show "code_within frame (\<lambda>_. True)
     (\<lambda>s. case mcpClient s of None \<Rightarrow> (Return (), s)
          | Some c \<Rightarrow> request (Close c) (client_close P c) s)"
    by (auto simp: code_within_def request_def split: option.splits prod.splits sum.splits)
  show "code_within frame (\<lambda>_. True)
     (\<lambda>s. case oauthProvider s of None \<Rightarrow> (Throw (Error ''OAuth provider not initialized''), s)
          | Some p \<Rightarrow> (Return (), s))"
    by (auto simp: code_within_def split: option.splits)
qed

lemma retryLoop_within:
  "code_within frame (\<lambda>r. case r of None \<Rightarrow> maxRetries \<le> retries | Some x \<Rightarrow> answers toolUse x)
     (retryLoop P toolUse retries)"
proof (induction P toolUse retries rule: retryLoop.induct)
  case (1 P toolUse retries)
  show ?case
  proof (cases "retries < maxRetries")
    case False
    then show ?thesis
      by (subst retryLoop.simps) (simp add: frame_return)
  next
    case True
    have call: "code_within frame
        (\<lambda>r. case r of None \<Rightarrow> maxRetries \<le> retries | Some x \<Rightarrow> answers toolUse x)
        (bind (on_mcpClient (\<lambda>c.
                   request (CallTool c (tool_name toolUse) (tool_input toolUse))
                           (client_callTool P c (tool_name toolUse) (tool_input toolUse))))
             (\<lambda>result. return (Some \<lparr>result_type = ''tool_result'',
                                      tool_use_id = tool_id toolUse,
                                      result_content = JSON_stringify P result\<rparr>)))"
      by (intro frame_bind frame_on_mcpClient frame_request frame_return)
         (simp add: answers_def)
    have handler: "code_within frame
        (\<lambda>r. case r of None \<Rightarrow> maxRetries \<le> retries | Some x \<Rightarrow> answers toolUse x)
        (if string_includes (errorMessage error) SESSION_EXPIRED \<and> retries < maxRetries - 1
         then bind (await (reconnectMCPSession P)) (\<lambda>_. retryLoop P toolUse (retries + 1))
         else throw error)" for error
    proof (cases "string_includes (errorMessage error) SESSION_EXPIRED \<and> retries < maxRetries - 1")
      case False
      then show ?thesis by (auto simp: frame_throw)
    next
      case expired: True
      have "code_within frame
          (\<lambda>r. case r of None \<Rightarrow> maxRetries \<le> retries + 1 | Some x \<Rightarrow> answers toolUse x)
          (retryLoop P toolUse (retries + 1))"
        by (rule "1.IH" [OF True expired])
      moreover from expired have "\<not> maxRetries \<le> retries + 1" by arith
      ultimately have "code_within frame
          (\<lambda>r. case r of None \<Rightarrow> maxRetries \<le> retries | Some x \<Rightarrow> answers toolUse x)
          (retryLoop P toolUse (retries + 1))"
        by (rule_tac code_within_weaken) (auto split: option.splits)
      then show ?thesis using expired
        by (auto intro!: frame_bind frame_await frame_reconnectMCPSession)
    qed
    show ?thesis
      apply (subst retryLoop.simps)
      apply (simp only: True if_True)
      apply (rule frame_try_catch [OF call handler])
      done
  qed
qed

lemma callToolWithRetry_within:
  "code_within frame (answers toolUse) (callToolWithRetry P toolUse)"
  unfolding callToolWithRetry_def
  by (rule code_within_bind [OF refl_trans_frame retryLoop_within])
     (auto simp: frame_return frame_throw split: option.splits)

section \<open>Promise.all\<close>

lemma start_all_within:
  assumes G: "refl_trans G"
  shows "list_all2 (\<lambda>m x. code_within G (Q x) m) ms xs \<Longrightarrow> start_all ms s = (ps, s') \<Longrightarrow>
         G s s' \<and> list_all2 (\<lambda>p x. within G (Q x) p) ps xs"
proof (induction ms arbitrary: xs s ps s')
  case Nil
  then show ?case by (simp add: refl_transD(1) [OF G])
next
  case (Cons m ms)
  from Cons.prems(1) obtain x xs' where xs: "xs = x # xs'" "code_within G (Q x) m"
    "list_all2 (\<lambda>m x. code_within G (Q x) m) ms xs'"
    by (auto simp: list_all2_Cons1)
  obtain p s1 where m: "m s = (p, s1)" by (cases "m s")
  obtain ps1 s2 where rest: "start_all ms s1 = (ps1, s2)" by (cases "start_all ms s1")
  from Cons.prems(2) m rest have res: "ps = p # ps1" "s' = s2" by simp_all
  from xs(2) m have p: "G s s1" "within G (Q x) p"
    by (auto simp: code_within_def dest: spec [of _ s])
  from Cons.IH [OF xs(3) rest] have "G s1 s2" "list_all2 (\<lambda>p x. within G (Q x) p) ps1 xs'"
    by simp_all
  with p res xs(1) show ?case by (auto intro: refl_transD(2) [OF G])
qed

lemma interleave_within:
  assumes G: "refl_trans G"
  shows "list_all2 (\<lambda>p x. within G (Q x) p) ps xs \<Longrightarrow> interleave sched ps s = (ps', s') \<Longrightarrow>
         G s s' \<and> list_all2 (\<lambda>p x. within G (Q x) p) ps' xs"
proof (induction sched arbitrary: ps s)
  case Nil
  then show ?case by (simp add: refl_transD(1) [OF G])
next
  case (Cons i sched)
  show ?case
  proof (cases "rejected ps \<noteq> None \<or> \<not> i < length ps \<or> (\<forall>k. ps ! i \<noteq> Await k)")
    case True
    then have "interleave (i # sched) ps s = (ps, s) \<or>
               interleave (i # sched) ps s = interleave sched ps s"
      by (auto split: proc.splits)
    with Cons show ?thesis by (auto simp: refl_transD(1) [OF G])
  next
    case False
    then obtain k where k: "rejected ps = None" "i < length ps" "ps ! i = Await k" by auto
    obtain p1 s1 where ks: "k s = (p1, s1)" by (cases "k s")
    from Cons.prems(1) k(2) have "within G (Q (xs ! i)) (ps ! i)"
      by (simp add: list_all2_conv_all_nth)
    with k(3) ks have step: "G s s1" "within G (Q (xs ! i)) p1"
      by (auto dest: spec [of _ s])
    from list_all2_update_cong [OF Cons.prems(1), where x = p1 and y = "xs ! i" and i = i] step(2)
    have "list_all2 (\<lambda>p x. within G (Q x) p) (ps[i := p1]) xs"
      by simp
    moreover from Cons.prems(2) k ks have "interleave sched (ps[i := p1]) s1 = (ps', s')"
      by simp
    ultimately have "G s1 s'" "list_all2 (\<lambda>p x. within G (Q x) p) ps' xs"
      using Cons.IH by blast+
    with step(1) show ?thesis by (blast intro: refl_transD(2) [OF G])
  qed
qed

lemma drain_within:
  assumes G: "refl_trans G"
  shows "list_all2 (\<lambda>p x. within G (Q x) p) ps xs \<Longrightarrow> drain ps s = (r, s') \<Longrightarrow>
         G s s' \<and> (\<forall>as. r = Inr as \<longrightarrow> list_all2 (\<lambda>a x. Q x a) as xs)"
proof (induction ps arbitrary: xs s r s')
  case Nil
  then show ?case by (auto simp: refl_transD(1) [OF G])
next
  case (Cons p ps)
  from Cons.prems(1) obtain x xs' where xs: "xs = x # xs'" "within G (Q x) p"
    "list_all2 (\<lambda>p x. within G (Q x) p) ps xs'"
    by (auto simp: list_all2_Cons1)
  obtain r1 s1 where p: "run p s = (r1, s1)" by (cases "run p s")
  from within_run [OF G xs(2), of s] p have r1: "G s s1" "\<And>a. r1 = Inr a \<Longrightarrow> Q x a"
    by simp_all
  show ?case
  proof (cases r1)
    case (Inl e)
    with Cons.prems(2) p r1(1) show ?thesis by auto
  next
    case (Inr a)
    obtain r2 s2 where rest: "drain ps s1 = (r2, s2)" by (cases "drain ps s1")
    from Cons.IH [OF xs(3) rest]
    have ih: "G s1 s2" "\<And>as. r2 = Inr as \<Longrightarrow> list_all2 (\<lambda>a x. Q x a) as xs'"
      by simp_all
    from Cons.prems(2) p Inr rest have "s' = s2" "r = (case r2 of Inl e \<Rightarrow> Inl e | Inr as \<Rightarrow> Inr (a # as))"
      by (auto split: sum.splits)
    with ih r1 Inr xs(1) show ?thesis
      by (auto split: sum.splits intro: refl_transD(2) [OF G])
  qed
qed

lemma Promise_all_within:
  assumes G: "refl_trans G"
    and ms: "list_all2 (\<lambda>m x. code_within G (Q x) m) ms xs"
    and res: "Promise_all sched ms s = (r, s')"
  shows "G s s' \<and> (\<forall>as. r = Inr as \<longrightarrow> list_all2 (\<lambda>a x. Q x a) as xs)"
proof -
  obtain ps s0 where st: "start_all ms s = (ps, s0)" by (cases "start_all ms s")
  obtain ps' s1 where il: "interleave sched ps s0 = (ps', s1)" by (cases "interleave sched ps s0")
  from start_all_within [OF G ms st] have 0: "G s s0" "list_all2 (\<lambda>p x. within G (Q x) p) ps xs"
    by simp_all
  from interleave_within [OF G 0(2) il]
  have 1: "G s0 s1" "list_all2 (\<lambda>p x. within G (Q x) p) ps' xs" by simp_all
  show ?thesis
  proof (cases "rejected ps'")
    case (Some e)
    with res st il have "r = Inl e" "s' = s1" by (simp_all add: Promise_all_def)
    with 0(1) 1(1) show ?thesis by (auto intro: refl_transD(2) [OF G])
  next
    case None
    with res st il have "drain ps' s1 = (r, s')" by (simp add: Promise_all_def)
    from drain_within [OF G 1(2) this] 0(1) 1(1) show ?thesis
      by (auto intro: refl_transD(2) [OF G])
  qed
qed



section \<open>Isolated runs of the setup functions\<close>

lemma run_code_on_mcpClient:
  "run_code (on_mcpClient f) s =
     (case mcpClient s of None \<Rightarrow> (Inl null_TypeError, s) | Some c \<Rightarrow> run_code (f c) s)"
  by (simp add: run_code_def on_mcpClient_def split: option.splits)

lemma run_code_listAndConvert:
  assumes "mcpClient s = Some c"
  shows "run_code (listAndConvert P) s =
     (case client_listTools P c (world s) of
        (Inl e, w1) \<Rightarrow> (Inl e, s\<lparr>world := w1, events := events s @ [ListTools c]\<rparr>)
      | (Inr ts, w1) \<Rightarrow>
          (case client_listPrompts P c w1 of (rp, w2) \<Rightarrow>
             (case client_listResources P c w2 of (rr, w3) \<Rightarrow>
                (Inr (), s\<lparr>availableTools := map toAnthropicTool ts, world := w3,
                           events := events s @ [ListTools c, ListPrompts c, ListResources c]\<rparr>))))"
  using assms
  by (simp add: listAndConvert_def run_code_bind run_code_try_catch run_code_on_mcpClient
      run_code_request setAvailableTools_def run_code_def [of "\<lambda>s. (Return (), _ s)"]
      split: prod.splits sum.splits)

lemma run_code_initializeTools:
  "run_code (initializeTools P) s =
     (case mcpClient s of
        None \<Rightarrow> (Inl (Error ''MCP client not initialized''), s)
      | Some c \<Rightarrow> run_code (listAndConvert P) s)"
  by (simp add: initializeTools_eq run_code_def split: option.splits)

lemma run_code_newTransport:
  "run_code (newTransport P) s =
     (if url_valid P
      then (Inr (), s\<lparr>mcpTransport := Some (nextHandle s), nextHandle := Suc (nextHandle s)\<rparr>)
      else (Inl (TypeError ''Invalid URL''), s))"
  by (simp add: run_code_def newTransport_def)

lemma run_code_newClient:
  "run_code newClient s =
     (Inr (), s\<lparr>mcpClient := Some (nextHandle s), nextHandle := Suc (nextHandle s)\<rparr>)"
  by (simp add: run_code_def newClient_def)

lemma run_code_mcpClient_connect:
  assumes "mcpClient s = Some c" "mcpTransport s = Some t"
  shows "run_code (mcpClient_connect P) s =
     (case client_connect P c t (world s) of
        (Inl e, w') \<Rightarrow>
          (Inl e, if instanceof_UnauthorizedError e
                  then redirectToAuthorization (s\<lparr>world := w', events := events s @ [Connect c t]\<rparr>)
                  else s\<lparr>world := w', events := events s @ [Connect c t]\<rparr>)
      | (Inr v, w') \<Rightarrow> (Inr v, s\<lparr>world := w', events := events s @ [Connect c t]\<rparr>))"
  using assms
  by (simp add: run_code_def mcpClient_connect_def on_mcpClient_def redirectToAuthorization_def
      split: prod.splits sum.splits)

section \<open>Connecting, authorization and health\<close>

lemma run_code_modify: "run_code (\<lambda>s. (Return a, f s)) s = (Inr a, f s)"
  by (simp add: run_code_def)

lemma run_code_initializeMCPClient_connected:
  assumes "url_valid P" "loadSavedTokens P (world s) = (Inr (), w0)"
    and "client_connect P (Suc (nextHandle s)) (nextHandle s) w0 = (Inr (), w1)"
  shows "run_code (initializeMCPClient P) s =
     run_code (try_catch (listAndConvert P)
                 (\<lambda>error. if instanceof_UnauthorizedError error then return () else throw error))
       (s\<lparr>oauthProvider := Some \<lparr>pendingAuth = False\<rparr>,
          mcpTransport := Some (nextHandle s), mcpClient := Some (Suc (nextHandle s)),
          nextHandle := Suc (Suc (nextHandle s)), world := w1,
          events := events s @ [LoadSavedTokens, Connect (Suc (nextHandle s)) (nextHandle s)]\<rparr>)"
  using assms
  by (simp add: initializeMCPClient_eq run_code_bind run_code_try_catch run_code_modify
      run_code_request run_code_newTransport run_code_newClient run_code_mcpClient_connect
      split: prod.splits sum.splits)

text \<open>
  Claim C7. While connecting, and in every later refresh of the tool catalog, a failure
  of the prompts listing or of the resources listing is caught on its own: whatever the
  two listings answer (\<open>rp\<close> and \<open>rr\<close> are any results, failures included), both are
  attempted, the function returns normally and the catalog holds the converted tools,
  provided the tools listing itself succeeded. Nothing but the tools is stored.
\<close>

theorem best_effort_listings_are_not_fatal:
  assumes tools: "client_listTools P c w1 = (Inr ts, w2)"
    and prompts: "client_listPrompts P c w2 = (rp, w3)"
    and resources: "client_listResources P c w3 = (rr, w4)"
  shows "(mcpClient s = Some c \<and> world s = w1 \<longrightarrow>
            run_code (initializeTools P) s =
              (Inr (), s\<lparr>availableTools := map toAnthropicTool ts, world := w4,
                         events := events s @ [ListTools c, ListPrompts c, ListResources c]\<rparr>)) \<and>
         (url_valid P \<and> loadSavedTokens P (world s) = (Inr (), w0) \<and> c = Suc (nextHandle s) \<and>
          client_connect P c (nextHandle s) w0 = (Inr (), w1) \<longrightarrow>
            run_code (initializeMCPClient P) s =
              (Inr (), s\<lparr>oauthProvider := Some \<lparr>pendingAuth = False\<rparr>,
                         mcpTransport := Some (nextHandle s), mcpClient := Some c,
                         nextHandle := Suc c, availableTools := map toAnthropicTool ts,
                         world := w4,
                         events := events s @ [LoadSavedTokens, Connect c (nextHandle s),
                                               ListTools c, ListPrompts c, ListResources c]\<rparr>))"
proof (intro conjI impI)
  assume "mcpClient s = Some c \<and> world s = w1"
  then show "run_code (initializeTools P) s =
      (Inr (), s\<lparr>availableTools := map toAnthropicTool ts, world := w4,
                 events := events s @ [ListTools c, ListPrompts c, ListResources c]\<rparr>)"
    using tools prompts resources
    by (simp add: run_code_initializeTools run_code_listAndConvert)
next
  assume a: "url_valid P \<and> loadSavedTokens P (world s) = (Inr (), w0) \<and> c = Suc (nextHandle s) \<and>
          client_connect P c (nextHandle s) w0 = (Inr (), w1)"
  then show "run_code (initializeMCPClient P) s =
              (Inr (), s\<lparr>oauthProvider := Some \<lparr>pendingAuth = False\<rparr>,
                         mcpTransport := Some (nextHandle s), mcpClient := Some c,
                         nextHandle := Suc c, availableTools := map toAnthropicTool ts,
                         world := w4,
                         events := events s @ [LoadSavedTokens, Connect c (nextHandle s),
                                               ListTools c, ListPrompts c, ListResources c]\<rparr>)"
  proof -
    from a have c: "c = Suc (nextHandle s)" and url: "url_valid P"
      and load: "loadSavedTokens P (world s) = (Inr (), w0)"
      and conn: "client_connect P (Suc (nextHandle s)) (nextHandle s) w0 = (Inr (), w1)"
      by auto
    show ?thesis
      unfolding run_code_initializeMCPClient_connected [OF url load conn] run_code_try_catch
      using tools prompts resources
      by (simp add: c run_code_listAndConvert [where c = "Suc (nextHandle s)"])
  qed
qed

theorem best_effort_listings_are_not_fatal_witness:
  "run_code (initializeTools sim) (connected_state (sim_server True True [1])) =
     (Inr (), (connected_state (sim_server True True [1]))
        \<lparr>availableTools := map toAnthropicTool sim_tools,
         events := [ListTools 1, ListPrompts 1, ListResources 1]\<rparr>) \<and>
   run_code (initializeMCPClient sim) (initial_state (sim_server True True [])) =
     (Inr (), (connected_state (sim_server True True [1]))
        \<lparr>availableTools := map toAnthropicTool sim_tools,
         events := [LoadSavedTokens, Connect 1 0, ListTools 1, ListPrompts 1, ListResources 1]\<rparr>)"
proof -
  have tools: "client_listTools sim 1 (sim_server True True [1]) = (Inr sim_tools, sim_server True True [1])"
    by (simp add: sim_def sim_server_def)
  have prompts: "client_listPrompts sim 1 (sim_server True True [1]) = (Inl (Error ''Method not found''), sim_server True True [1])"
    by (simp add: sim_def)
  have resources: "client_listResources sim 1 (sim_server True True [1]) = (Inl (Error ''Method not found''), sim_server True True [1])"
    by (simp add: sim_def)
  note inst1 = best_effort_listings_are_not_fatal [OF tools prompts resources,
      where s = "connected_state (sim_server True True [1])"]
  note inst2 = best_effort_listings_are_not_fatal [OF tools prompts resources,
      where s = "initial_state (sim_server True True [])"]
  have 1: "mcpClient (connected_state (sim_server True True [1])) = Some 1 \<and>
           world (connected_state (sim_server True True [1])) = sim_server True True [1]"
    by (simp add: connected_state_def)
  have 2: "url_valid sim \<and>
      loadSavedTokens sim (world (initial_state (sim_server True True []))) = (Inr (), sim_server True True []) \<and>
      1 = Suc (nextHandle (initial_state (sim_server True True []))) \<and>
      client_connect sim 1 (nextHandle (initial_state (sim_server True True []))) (sim_server True True [])
        = (Inr (), sim_server True True [1])"
    by (simp add: sim_def initial_state_def sim_server_def)
  from inst1 [THEN conjunct1, rule_format, OF 1] inst2 [THEN conjunct2, rule_format, OF 2]
  show ?thesis
    by (simp add: connected_state_def initial_state_def)
qed

lemma run_code_startup_unauthorized:
  assumes "url_valid P" "loadSavedTokens P w = (Inr (), w0)"
    and "client_connect P 1 0 w0 = (Inl e, w1)" "instanceof_UnauthorizedError e"
  shows "run_code (initializeMCPClient P) (initial_state w) =
           (Inr (), (initial_state w)\<lparr>mcpClient := Some 1, mcpTransport := Some 0,
              oauthProvider := Some \<lparr>pendingAuth = True\<rparr>, world := w1,
              events := [LoadSavedTokens, Connect 1 0], nextHandle := 2\<rparr>)"
    and "run_code (startup P) (initial_state w) =
           (Inr (), (initial_state w)\<lparr>mcpClient := Some 1, mcpTransport := Some 0,
              oauthProvider := Some \<lparr>pendingAuth = True\<rparr>, world := w1,
              events := [LoadSavedTokens, Connect 1 0], nextHandle := 2\<rparr>)"
proof -
  show 1: "run_code (initializeMCPClient P) (initial_state w) =
           (Inr (), (initial_state w)\<lparr>mcpClient := Some 1, mcpTransport := Some 0,
              oauthProvider := Some \<lparr>pendingAuth = True\<rparr>, world := w1,
              events := [LoadSavedTokens, Connect 1 0], nextHandle := 2\<rparr>)"
    using assms
    by (simp add: initializeMCPClient_eq run_code_bind run_code_try_catch run_code_modify
        run_code_request run_code_newTransport run_code_newClient run_code_mcpClient_connect
        initial_state_def redirectToAuthorization_def numeral_2_eq_2)
  show "run_code (startup P) (initial_state w) =
           (Inr (), (initial_state w)\<lparr>mcpClient := Some 1, mcpTransport := Some 0,
              oauthProvider := Some \<lparr>pendingAuth = True\<rparr>, world := w1,
              events := [LoadSavedTokens, Connect 1 0], nextHandle := 2\<rparr>)"
    by (simp add: startup_def run_code_try_catch 1)
qed




text \<open>
  Claim C10. The health endpoint reports \<open>mcpConnected\<close> exactly when the variable
  \<open>mcpClient\<close> holds a client object. After a start whose connect was refused with an
  \<^verbatim>\<open>UnauthorizedError\<close> (no session was established, the process waits for the OAuth
  callback) it reports \<open>mcpConnected\<close> true together with \<open>toolsAvailable\<close> 0.
\<close>

theorem health_connected_means_client_object:
  "mcpConnected (get_health s) = (mcpClient s \<noteq> None) \<and>
   toolsAvailable (get_health s) = length (availableTools s) \<and>
   (url_valid P \<and> loadSavedTokens P w = (Inr (), w0) \<and>
    client_connect P 1 0 w0 = (Inl e, w1) \<and> instanceof_UnauthorizedError e \<longrightarrow>
      fst (run_code (startup P) (initial_state w)) = Inr () \<and>
      events (snd (run_code (startup P) (initial_state w))) = [LoadSavedTokens, Connect 1 0] \<and>
      get_health (snd (run_code (startup P) (initial_state w))) =
        \<lparr>status = ''ok'', mcpConnected = True, toolsAvailable = 0\<rparr>)"
proof (intro conjI impI)
  assume a: "url_valid P \<and> loadSavedTokens P w = (Inr (), w0) \<and>
    client_connect P 1 0 w0 = (Inl e, w1) \<and> instanceof_UnauthorizedError e"
  then have run: "run_code (startup P) (initial_state w) =
           (Inr (), (initial_state w)\<lparr>mcpClient := Some 1, mcpTransport := Some 0,
              oauthProvider := Some \<lparr>pendingAuth = True\<rparr>, world := w1,
              events := [LoadSavedTokens, Connect 1 0], nextHandle := 2\<rparr>)"
    by (intro run_code_startup_unauthorized(2)) auto
  show "fst (run_code (startup P) (initial_state w)) = Inr ()"
    by (simp add: run)
  show "events (snd (run_code (startup P) (initial_state w))) = [LoadSavedTokens, Connect 1 0]"
    by (simp add: run)
  show "get_health (snd (run_code (startup P) (initial_state w))) =
        \<lparr>status = ''ok'', mcpConnected = True, toolsAvailable = 0\<rparr>"
    unfolding run by (simp add: get_health_def initial_state_def)
qed (simp_all add: get_health_def)

theorem health_connected_means_client_object_witness:
  "get_health (snd (run_code (startup sim) (initial_state (sim_server False True [])))) =
     \<lparr>status = ''ok'', mcpConnected = True, toolsAvailable = 0\<rparr>"
proof -
  have "url_valid sim \<and>
    loadSavedTokens sim (sim_server False True []) = (Inr (), sim_server False True []) \<and>
    client_connect sim 1 0 (sim_server False True []) = (Inl sim_unauthorized, sim_server False True []) \<and>
    instanceof_UnauthorizedError sim_unauthorized"
    by (simp add: sim_def sim_server_def sim_unauthorized_def)
  with health_connected_means_client_object
         [where P = sim and w = "sim_server False True []" and e = sim_unauthorized]
  show ?thesis by blast
qed

section \<open>Retrying a tool call after a session expiry\<close>

lemma run_code_retryLoop:
  "run_code (retryLoop P toolUse retries) s =
     (if retries < maxRetries then
        (case mcpClient s of
           None \<Rightarrow>
             (if string_includes (errorMessage null_TypeError) SESSION_EXPIRED \<and>
                 retries < maxRetries - 1
              then run_code (bind (await (reconnectMCPSession P))
                              (\<lambda>_. retryLoop P toolUse (retries + 1))) s
              else (Inl null_TypeError, s))
         | Some c \<Rightarrow>
             (case client_callTool P c (tool_name toolUse) (tool_input toolUse) (world s) of
                (Inr result, w1) \<Rightarrow>
                  (Inr (Some \<lparr>result_type = ''tool_result'', tool_use_id = tool_id toolUse,
                              result_content = JSON_stringify P result\<rparr>),
                   s\<lparr>world := w1,
                     events := events s @ [CallTool c (tool_name toolUse) (tool_input toolUse)]\<rparr>)
              | (Inl error, w1) \<Rightarrow>
                  (if string_includes (errorMessage error) SESSION_EXPIRED \<and>
                      retries < maxRetries - 1
                   then run_code (bind (await (reconnectMCPSession P))
                                   (\<lambda>_. retryLoop P toolUse (retries + 1)))
                          (s\<lparr>world := w1,
                             events := events s @ [CallTool c (tool_name toolUse) (tool_input toolUse)]\<rparr>)
                   else (Inl error,
                         s\<lparr>world := w1,
                           events := events s @ [CallTool c (tool_name toolUse) (tool_input toolUse)]\<rparr>))))
      else (Inr None, s))"
  by (subst retryLoop.simps)
     (simp add: run_code_try_catch run_code_bind run_code_on_mcpClient run_code_request
       split: option.splits prod.splits sum.splits)

lemma run_code_reconnectMCPSession:
  assumes "mcpClient s = Some c" "oauthProvider s = Some p" "url_valid P"
    and "client_close P c (world s) = (Inr (), w1)"
    and "client_connect P (Suc (nextHandle s)) (nextHandle s) w1 = (Inr (), w2)"
    and "client_listTools P (Suc (nextHandle s)) w2 = (Inr ts, w3)"
    and "client_listPrompts P (Suc (nextHandle s)) w3 = (rp, w4)"
    and "client_listResources P (Suc (nextHandle s)) w4 = (rr, w5)"
  shows "run_code (reconnectMCPSession P) s =
     (Inr (), s\<lparr>mcpClient := Some (Suc (nextHandle s)), mcpTransport := Some (nextHandle s),
                nextHandle := Suc (Suc (nextHandle s)),
                availableTools := map toAnthropicTool ts, world := w5,
                events := events s @
                  [Reconnecting, Close c, Connect (Suc (nextHandle s)) (nextHandle s),
                   ListTools (Suc (nextHandle s)), ListPrompts (Suc (nextHandle s)),
                   ListResources (Suc (nextHandle s))]\<rparr>)"
  using assms
  by (simp add: reconnectMCPSession_def run_code_bind run_code_modify run_code_request
      run_code_newTransport run_code_newClient run_code_mcpClient_connect
      run_code_initializeTools run_code_listAndConvert
      run_code_def [of "\<lambda>s. case mcpClient s of None \<Rightarrow> _ s | Some c \<Rightarrow> _ c s"]
      run_code_def [of "\<lambda>s. case oauthProvider s of None \<Rightarrow> _ s | Some c \<Rightarrow> _ c s"]
      run_code_def [symmetric, of "request _ _"])



lemma code_within_run_code:
  assumes "refl_trans G" "code_within G Q m"
  shows "G (snd (m s)) (snd (run_code m s))"
    and "G s (snd (run_code m s))"
    and "fst (run_code m s) = Inr a \<Longrightarrow> Q a"
proof -
  from assms(2) have m: "G s (snd (m s))" "within G Q (fst (m s))"
    by (simp_all add: code_within_def)
  from within_run [OF assms(1) m(2), of "snd (m s)"]
  have r: "G (snd (m s)) (snd (run_code m s))" "\<forall>a. fst (run_code m s) = Inr a \<longrightarrow> Q a"
    by (simp_all add: run_code_def case_prod_beta)
  show "G (snd (m s)) (snd (run_code m s))" by (rule r(1))
  show "G s (snd (run_code m s))" using m(1) r(1) by (rule refl_transD(2) [OF assms(1)])
  show "fst (run_code m s) = Inr a \<Longrightarrow> Q a" using r(2) by simp
qed

lemma reconnectMCPSession_announced:
  "\<exists>evs. events (snd (reconnectMCPSession P s)) = events s @ Reconnecting # evs"
  by (auto simp: reconnectMCPSession_def bind_def request_def newTransport_def newClient_def
        mcpClient_connect_def on_mcpClient_def split: option.splits)

lemma reconnect_then_retry_events:
  "\<exists>evs. events (snd (run_code (bind (await (reconnectMCPSession P))
                                 (\<lambda>_. retryLoop P toolUse retries)) s))
         = events s @ Reconnecting # evs"
proof -
  let ?C = "bind (await (reconnectMCPSession P)) (\<lambda>_. retryLoop P toolUse retries)"
  have "code_within frame
          (\<lambda>r. case r of None \<Rightarrow> maxRetries \<le> retries | Some x \<Rightarrow> answers toolUse x) ?C"
    by (intro frame_bind frame_await frame_reconnectMCPSession retryLoop_within)
  from code_within_run_code(1) [OF refl_trans_frame this, of s]
  obtain evs1 where 1: "events (snd (run_code ?C s)) = events (snd (?C s)) @ evs1"
    by (auto simp: frame_def)
  have "snd (?C s) = snd (reconnectMCPSession P s)"
    by (cases "fst (reconnectMCPSession P s)")
       (simp_all add: bind_def await_def case_prod_beta)
  with reconnectMCPSession_announced [of P s] 1 show ?thesis by auto
qed

text \<open>
  Claim C2. An attempt of a tool call (the first has \<open>retries = 0\<close>, the second and
  last \<open>retries = 1\<close>) that fails with the error \<open>e\<close> hands \<open>e\<close> to the caller at once,
  with no reconnect and no further attempt, exactly when \<open>e\<close> does not carry the
  session-expiry text or the attempt is the second one. In particular, when the first
  attempt met an expired session, the session was re-established and the second attempt
  fails as well (with any error \<open>e2\<close>, a session expiry included), the call ends after these
  two attempts and one reconnect with \<open>e2\<close> thrown to the caller.
\<close>

theorem failure_propagates_at_once_iff:
  assumes attempt: "retries < maxRetries" and client: "mcpClient s = Some c"
    and fails:
      "client_callTool P c (tool_name toolUse) (tool_input toolUse) (world s) = (Inl e, w1)"
  shows "(run_code (retryLoop P toolUse retries) s =
            (Inl e, s\<lparr>world := w1,
                      events := events s @ [CallTool c (tool_name toolUse) (tool_input toolUse)]\<rparr>)
          \<longleftrightarrow> \<not> string_includes (errorMessage e) SESSION_EXPIRED \<or> retries = maxRetries - 1) \<and>
         (retries = 0 \<and> string_includes (errorMessage e) SESSION_EXPIRED \<and>
          oauthProvider s = Some p \<and> url_valid P \<and>
          client_close P c w1 = (Inr (), w2) \<and>
          client_connect P (Suc (nextHandle s)) (nextHandle s) w2 = (Inr (), w3) \<and>
          client_listTools P (Suc (nextHandle s)) w3 = (Inr ts, w4) \<and>
          client_listPrompts P (Suc (nextHandle s)) w4 = (rp, w5) \<and>
          client_listResources P (Suc (nextHandle s)) w5 = (rr, w6) \<and>
          client_callTool P (Suc (nextHandle s)) (tool_name toolUse) (tool_input toolUse) w6
            = (Inl e2, w7)
          \<longrightarrow> run_code (callToolWithRetry P toolUse) s =
                (Inl e2,
                 s\<lparr>mcpClient := Some (Suc (nextHandle s)), mcpTransport := Some (nextHandle s),
                   nextHandle := Suc (Suc (nextHandle s)),
                   availableTools := map toAnthropicTool ts, world := w7,
                   events := events s @
                     [CallTool c (tool_name toolUse) (tool_input toolUse),
                      Reconnecting, Close c, Connect (Suc (nextHandle s)) (nextHandle s),
                      ListTools (Suc (nextHandle s)), ListPrompts (Suc (nextHandle s)),
                      ListResources (Suc (nextHandle s)),
                      CallTool (Suc (nextHandle s)) (tool_name toolUse) (tool_input toolUse)]\<rparr>))"
proof (intro conjI impI)
  let ?call = "CallTool c (tool_name toolUse) (tool_input toolUse)"
  let ?s1 = "s\<lparr>world := w1, events := events s @ [?call]\<rparr>"
  show "run_code (retryLoop P toolUse retries) s = (Inl e, ?s1)
          \<longleftrightarrow> \<not> string_includes (errorMessage e) SESSION_EXPIRED \<or> retries = maxRetries - 1"
  proof (cases "string_includes (errorMessage e) SESSION_EXPIRED \<and> retries < maxRetries - 1")
    case False
    with attempt have "\<not> string_includes (errorMessage e) SESSION_EXPIRED \<or> retries = maxRetries - 1"
      by auto
    moreover from False have "run_code (retryLoop P toolUse retries) s = (Inl e, ?s1)"
      by (subst run_code_retryLoop) (auto simp add: attempt client fails)
    ultimately show ?thesis by simp
  next
    case True
    then have run: "run_code (retryLoop P toolUse retries) s =
        run_code (bind (await (reconnectMCPSession P))
                   (\<lambda>_. retryLoop P toolUse (retries + 1))) ?s1"
      by (subst run_code_retryLoop) (simp add: attempt client fails)
    from reconnect_then_retry_events [of P toolUse "retries + 1" ?s1]
    obtain evs where "events (snd (run_code (retryLoop P toolUse retries) s))
        = events ?s1 @ Reconnecting # evs"
      unfolding run by blast
    then have "run_code (retryLoop P toolUse retries) s \<noteq> (Inl e, ?s1)"
      by auto
    with True show ?thesis by auto
  qed
next
  let ?call = "CallTool c (tool_name toolUse) (tool_input toolUse)"
  let ?s1 = "s\<lparr>world := w1, events := events s @ [?call]\<rparr>"
  let ?fresh = "Suc (nextHandle s)"
  assume a: "retries = 0 \<and> string_includes (errorMessage e) SESSION_EXPIRED \<and>
          oauthProvider s = Some p \<and> url_valid P \<and>
          client_close P c w1 = (Inr (), w2) \<and>
          client_connect P ?fresh (nextHandle s) w2 = (Inr (), w3) \<and>
          client_listTools P ?fresh w3 = (Inr ts, w4) \<and>
          client_listPrompts P ?fresh w4 = (rp, w5) \<and>
          client_listResources P ?fresh w5 = (rr, w6) \<and>
          client_callTool P ?fresh (tool_name toolUse) (tool_input toolUse) w6 = (Inl e2, w7)"
  then have expired: "string_includes (errorMessage e) SESSION_EXPIRED"
    and provider: "oauthProvider s = Some p" and url: "url_valid P"
    and closed: "client_close P c w1 = (Inr (), w2)"
    and connected: "client_connect P ?fresh (nextHandle s) w2 = (Inr (), w3)"
    and tools: "client_listTools P ?fresh w3 = (Inr ts, w4)"
    and prompts: "client_listPrompts P ?fresh w4 = (rp, w5)"
    and resources: "client_listResources P ?fresh w5 = (rr, w6)"
    and second_fails: "client_callTool P ?fresh (tool_name toolUse) (tool_input toolUse) w6 = (Inl e2, w7)"
    by blast+
  have reconnect: "run_code (reconnectMCPSession P) ?s1 =
     (Inr (), ?s1\<lparr>mcpClient := Some ?fresh, mcpTransport := Some (nextHandle s),
                nextHandle := Suc ?fresh,
                availableTools := map toAnthropicTool ts, world := w6,
                events := events ?s1 @
                  [Reconnecting, Close c, Connect ?fresh (nextHandle s),
                   ListTools ?fresh, ListPrompts ?fresh, ListResources ?fresh]\<rparr>)"
    using run_code_reconnectMCPSession [of ?s1 c p P w2 w3 ts w4 rp w5 rr w6]
      client provider url closed connected tools prompts resources
    by simp
  have two: "0 < maxRetries - Suc 0" "Suc 0 < maxRetries" "0 < maxRetries"
    "\<not> Suc 0 < maxRetries - Suc 0"
    by (simp_all add: maxRetries_def)
  have "run_code (retryLoop P toolUse 0) s =
      (Inl e2,
            s\<lparr>mcpClient := Some ?fresh, mcpTransport := Some (nextHandle s),
              nextHandle := Suc ?fresh,
              availableTools := map toAnthropicTool ts, world := w7,
              events := events s @
                [?call, Reconnecting, Close c, Connect ?fresh (nextHandle s),
                 ListTools ?fresh, ListPrompts ?fresh, ListResources ?fresh,
                 CallTool ?fresh (tool_name toolUse) (tool_input toolUse)]\<rparr>)"
    apply (subst run_code_retryLoop)
    apply (simp add: client fails expired two run_code_bind reconnect)
    apply (subst run_code_retryLoop)
    apply (simp add: two second_fails)
    done
  then show "run_code (callToolWithRetry P toolUse) s =
                (Inl e2,
                 s\<lparr>mcpClient := Some ?fresh, mcpTransport := Some (nextHandle s),
                   nextHandle := Suc ?fresh,
                   availableTools := map toAnthropicTool ts, world := w7,
                   events := events s @
                     [?call, Reconnecting, Close c, Connect ?fresh (nextHandle s),
                      ListTools ?fresh, ListPrompts ?fresh, ListResources ?fresh,
                      CallTool ?fresh (tool_name toolUse) (tool_input toolUse)]\<rparr>)"
    by (simp add: callToolWithRetry_def run_code_bind)
qed

theorem failure_propagates_at_once_iff_witness:
  "run_code (retryLoop sim
       \<lparr>tool_id = ''toolu_1'', tool_name = ''search_markets'', tool_input = ''bad''\<rparr> 0)
     (connected_state (sim_server True True [1])) =
     (Inl (Error ''Invalid arguments''),
      (connected_state (sim_server True True [1]))
        \<lparr>events := [CallTool 1 ''search_markets'' ''bad'']\<rparr>) \<and>
   run_code (callToolWithRetry sim
       \<lparr>tool_id = ''toolu_1'', tool_name = ''search_markets'', tool_input = ''btc''\<rparr>)
     (connected_state (sim_server True False [])) =
     (Inl sim_expired,
      (connected_state (sim_server True False []))
        \<lparr>mcpClient := Some 3, mcpTransport := Some 2, nextHandle := 4,
         availableTools := map toAnthropicTool sim_tools,
         events := [CallTool 1 ''search_markets'' ''btc'', Reconnecting, Close 1, Connect 3 2,
                    ListTools 3, ListPrompts 3, ListResources 3,
                    CallTool 3 ''search_markets'' ''btc'']\<rparr>)"
proof -
  let ?bad = "\<lparr>tool_id = ''toolu_1'', tool_name = ''search_markets'', tool_input = ''bad''\<rparr>"
  let ?btc = "\<lparr>tool_id = ''toolu_1'', tool_name = ''search_markets'', tool_input = ''btc''\<rparr>"
  let ?up = "connected_state (sim_server True True [1]) :: (sim_world, string) state"
  let ?down = "connected_state (sim_server True False []) :: (sim_world, string) state"
  have attempt: "0 < maxRetries" by (simp add: maxRetries_def)
  have client: "mcpClient ?up = Some 1" "mcpClient ?down = Some 1"
    by (simp_all add: connected_state_def)
  have bad: "client_callTool sim 1 (tool_name ?bad) (tool_input ?bad) (world ?up)
      = (Inl (Error ''Invalid arguments''), sim_server True True [1])"
    by (simp add: sim_def connected_state_def sim_server_def)
  have not_expired: "\<not> string_includes (errorMessage (Error ''Invalid arguments'')) SESSION_EXPIRED"
    by (simp add: SESSION_EXPIRED_def errorMessage_def Error_def)
  have gone: "client_callTool sim 1 (tool_name ?btc) (tool_input ?btc) (world ?down)
      = (Inl sim_expired, sim_server True False [])"
    by (simp add: sim_def connected_state_def sim_server_def)
  have again: "(0::nat) = 0 \<and> string_includes (errorMessage sim_expired) SESSION_EXPIRED \<and>
      oauthProvider ?down = Some \<lparr>pendingAuth = False\<rparr> \<and> url_valid sim \<and>
      client_close sim 1 (sim_server True False []) = (Inr (), sim_server True False []) \<and>
      client_connect sim (Suc (nextHandle ?down)) (nextHandle ?down) (sim_server True False [])
        = (Inr (), sim_server True False []) \<and>
      client_listTools sim (Suc (nextHandle ?down)) (sim_server True False [])
        = (Inr sim_tools, sim_server True False []) \<and>
      client_listPrompts sim (Suc (nextHandle ?down)) (sim_server True False [])
        = (Inl (Error ''Method not found''), sim_server True False []) \<and>
      client_listResources sim (Suc (nextHandle ?down)) (sim_server True False [])
        = (Inl (Error ''Method not found''), sim_server True False []) \<and>
      client_callTool sim (Suc (nextHandle ?down)) (tool_name ?btc) (tool_input ?btc)
          (sim_server True False [])
        = (Inl sim_expired, sim_server True False [])"
    by (simp add: sim_def connected_state_def sim_server_def sim_expired_def SESSION_EXPIRED_def
        errorMessage_def Error_def)
  from failure_propagates_at_once_iff [OF attempt client(1) bad, THEN conjunct1] not_expired
  have 1: "run_code (retryLoop sim ?bad 0) ?up =
      (Inl (Error ''Invalid arguments''),
       ?up\<lparr>world := sim_server True True [1],
            events := events ?up @ [CallTool 1 (tool_name ?bad) (tool_input ?bad)]\<rparr>)"
    by blast
  from failure_propagates_at_once_iff [OF attempt client(2) gone, THEN conjunct2, rule_format,
      OF again]
  have 2: "run_code (callToolWithRetry sim ?btc) ?down =
      (Inl sim_expired,
       ?down\<lparr>mcpClient := Some (Suc (nextHandle ?down)), mcpTransport := Some (nextHandle ?down),
           nextHandle := Suc (Suc (nextHandle ?down)),
           availableTools := map toAnthropicTool sim_tools, world := sim_server True False [],
           events := events ?down @
             [CallTool 1 (tool_name ?btc) (tool_input ?btc),
              Reconnecting, Close 1, Connect (Suc (nextHandle ?down)) (nextHandle ?down),
              ListTools (Suc (nextHandle ?down)), ListPrompts (Suc (nextHandle ?down)),
              ListResources (Suc (nextHandle ?down)),
              CallTool (Suc (nextHandle ?down)) (tool_name ?btc) (tool_input ?btc)]\<rparr>)" .
  show ?thesis
    unfolding 1 2 by (simp add: connected_state_def)
qed

lemma code_within_guarantee_weaken:
  assumes "code_within G Q m" "\<And>s s'. G s s' \<Longrightarrow> G' s s'"
  shows "code_within G' Q m"
proof -
  have "within G Q p \<Longrightarrow> within G' Q p" for p
    by (induction p rule: proc_step_induct) (simp_all add: assms(2))
  with assms show ?thesis by (simp add: code_within_def)
qed

text \<open>
  Claim C8. The \<^verbatim>\<open>throw\<close> after the retry loop is unreachable. With \<open>maxRetries = 2\<close>,
  the loop entered at its first or at its second iteration never ends because its
  condition is false: however its suspensions are interleaved with other code, and in
  whatever states it is resumed, it returns a tool result or throws. The same holds of the
  run with nothing interleaved. (Entered with the counter at \<open>maxRetries\<close> the loop would
  end at once; the counter only reaches 1.)
\<close>

theorem retry_loop_never_falls_through:
  "maxRetries = 2 \<and>
   (\<forall>retries < maxRetries.
      code_within (\<lambda>s s'. True) (\<lambda>r. r \<noteq> None) (retryLoop P toolUse retries) \<and>
      (\<forall>s. fst (run_code (retryLoop P toolUse retries) s) \<noteq> Inr None)) \<and>
   (\<forall>s. run_code (retryLoop P toolUse maxRetries) s = (Inr None, s))"
proof (intro conjI allI impI)
  fix retries :: nat
  assume retries: "retries < maxRetries"
  have "code_within frame (\<lambda>r. r \<noteq> None) (retryLoop P toolUse retries)"
    using retries
    by (intro code_within_weaken [OF retryLoop_within]) (auto split: option.splits)
  then show never: "code_within (\<lambda>s s'. True) (\<lambda>r. r \<noteq> None) (retryLoop P toolUse retries)"
    by (rule code_within_guarantee_weaken) simp
  fix s
  have "refl_trans (\<lambda>(s :: ('a, 'b) state) (s' :: ('a, 'b) state). True)"
    by (simp add: refl_trans_def)
  from code_within_run_code(3) [OF this never, of s None]
  show "fst (run_code (retryLoop P toolUse retries) s) \<noteq> Inr None"
    by blast
next
  fix s
  show "run_code (retryLoop P toolUse maxRetries) s = (Inr None, s)"
    by (subst run_code_retryLoop) simp
qed (simp add: maxRetries_def)

theorem retry_loop_never_falls_through_witness:
  "fst (run_code (retryLoop sim
       \<lparr>tool_id = ''toolu_1'', tool_name = ''search_markets'', tool_input = ''btc''\<rparr> 1)
     (connected_state (sim_server True False []))) \<noteq> Inr None"
proof -
  have "(1::nat) < maxRetries" by (simp add: maxRetries_def)
  with retry_loop_never_falls_through
         [of sim "\<lparr>tool_id = ''toolu_1'', tool_name = ''search_markets'', tool_input = ''btc''\<rparr>"]
  show ?thesis by blast
qed

section \<open>The conversation leaves the stored histories and the sockets alone\<close>

lemma callTools_results:
  assumes "callTools P sched response msgs s = (r, msgs', s')"
  shows "frame s s'"
    and "r = Inl e \<Longrightarrow>
           msgs' = msgs @ [\<lparr>role = Assistant, content = BlockContent (response_content response)\<rparr>]"
    and "r = Inr u \<Longrightarrow> \<exists>results.
           msgs' = msgs @ [\<lparr>role = Assistant, content = BlockContent (response_content response)\<rparr>,
                           \<lparr>role = User, content = ToolResultContent results\<rparr>] \<and>
           list_all2 (\<lambda>r toolUse. answers toolUse r) results (toolUseBlocksOf response)"
proof -
  let ?ms = "map (callToolWithRetry P) (toolUseBlocksOf response)"
  obtain r1 s1 where pa: "Promise_all sched ?ms s = (r1, s1)"
    by (cases "Promise_all sched ?ms s")
  have "list_all2 (\<lambda>m toolUse. code_within frame (answers toolUse) m) ?ms (toolUseBlocksOf response)"
    by (simp add: list_all2_map1 list_all2_same callToolWithRetry_within)
  from Promise_all_within [OF refl_trans_frame this pa]
  have fr: "frame s s1"
    and res: "\<And>as. r1 = Inr as \<Longrightarrow> list_all2 (\<lambda>a toolUse. answers toolUse a) as (toolUseBlocksOf response)"
    by simp_all
  from assms pa have s': "s' = s1"
    by (auto simp: callTools_def Let_def split: sum.splits)
  with fr show "frame s s'" by simp
  show "r = Inl e \<Longrightarrow>
           msgs' = msgs @ [\<lparr>role = Assistant, content = BlockContent (response_content response)\<rparr>]"
    using assms pa by (auto simp: callTools_def Let_def split: sum.splits)
  show "r = Inr u \<Longrightarrow> \<exists>results.
           msgs' = msgs @ [\<lparr>role = Assistant, content = BlockContent (response_content response)\<rparr>,
                           \<lparr>role = User, content = ToolResultContent results\<rparr>] \<and>
           list_all2 (\<lambda>r toolUse. answers toolUse r) results (toolUseBlocksOf response)"
    using assms pa res by (auto simp: callTools_def Let_def split: sum.splits)
qed

lemma create_frame: "create P params s = (r, s') \<Longrightarrow> frame s s'"
  by (auto simp: create_def frame_def split: prod.splits)

lemma toolUseLoop_frame:
  "toolUseLoop fuel P scheds response msgs s = Some (r, msgs', s') \<Longrightarrow> frame s s'"
proof (induction fuel arbitrary: scheds response msgs s)
  case 0
  then show ?case by simp
next
  case (Suc fuel)
  show ?case
  proof (cases "stop_reason response = ''tool_use'' \<and> toolUseBlocksOf response \<noteq> []")
    case False
    with Suc.prems show ?thesis by (auto simp: frame_refl split: if_splits)
  next
    case True
    obtain r1 msgs1 s1 where ct:
      "callTools P (case scheds of [] \<Rightarrow> [] | sched # x \<Rightarrow> sched) response msgs s = (r1, msgs1, s1)"
      by (metis prod_cases3)
    note f1 = callTools_results(1) [OF ct]
    show ?thesis
    proof (cases r1)
      case (Inl e)
      with Suc.prems True ct f1 show ?thesis by simp
    next
      case (Inr u)
      obtain r2 s2 where cr: "create P (create_params False msgs1 (availableTools s1)) s1 = (r2, s2)"
        by (cases "create P (create_params False msgs1 (availableTools s1)) s1")
      note f2 = frame_trans [OF f1 create_frame [OF cr]]
      show ?thesis
      proof (cases r2)
        case (Inl e)
        with Suc.prems True ct Inr cr f2 show ?thesis by simp
      next
        case (Inr response')
        with Suc.prems True ct \<open>r1 = Inr u\<close> cr
        have "toolUseLoop fuel P (tl scheds) response' msgs1 s2 = Some (r, msgs', s')"
          by simp
        from frame_trans [OF f2 Suc.IH [OF this]] show ?thesis .
      qed
    qed
  qed
qed

text \<open>The fuel only bounds the number of rounds: a turn that ends with some fuel ends
  the same way with more.\<close>

lemma toolUseLoop_more_fuel:
  "toolUseLoop fuel P scheds response msgs s = Some r \<Longrightarrow>
   toolUseLoop (fuel + extra) P scheds response msgs s = Some r"
proof (induction fuel arbitrary: scheds response msgs s)
  case 0
  then show ?case by simp
next
  case (Suc fuel)
  then show ?case
    by (auto split: if_splits prod.splits sum.splits)
qed

lemma converse_frame:
  assumes "converse fuel P scheds userMessage conversationHistory s = Some (r, msgs', s')"
  shows "frame s s'"
proof -
  let ?msgs = "map (\<lambda>msg. \<lparr>role = hist_role msg, content = StringContent (hist_content msg)\<rparr>)
                     conversationHistory
                 @ [\<lparr>role = User, content = StringContent userMessage\<rparr>]"
  obtain r1 s1 where cr: "create P (create_params True ?msgs (availableTools s)) s = (r1, s1)"
    by (cases "create P (create_params True ?msgs (availableTools s)) s")
  note f1 = create_frame [OF cr]
  show ?thesis
  proof (cases r1)
    case (Inl e)
    with assms cr f1 show ?thesis by (simp add: converse_def)
  next
    case (Inr response)
    with assms cr have "toolUseLoop fuel P scheds response ?msgs s1 = Some (r, msgs', s')"
      by (simp add: converse_def)
    from frame_trans [OF f1 toolUseLoop_frame [OF this]] show ?thesis .
  qed
qed

section \<open>Streaming the final text\<close>

lemma split_not_Nil [simp]: "split sep t \<noteq> []"
  by (induction t) (auto split: list.splits)

lemma concat_split:
  "concat (map (\<lambda>w. w @ [sep]) (butlast (split sep t)) @ [last (split sep t)]) = t"
proof (induction t)
  case Nil
  show ?case by simp
next
  case (Cons c t)
  obtain w ws where sp: "split sep t = w # ws"
    by (cases "split sep t") simp_all
  with Cons show ?case by (cases ws) auto
qed

lemma sendWords_sent:
  "sendWords words i ws s =
     s\<lparr>sent := (sent s)(ws := sent s ws @
          map (\<lambda>j. if j = length words - 1 then words ! j else words ! j @ '' '')
              [i..<length words])\<rparr>"
proof (induction words i ws s rule: sendWords.induct)
  case (1 words i ws s)
  let ?f = "\<lambda>j. if j = length words - 1 then words ! j else words ! j @ '' ''"
  show ?case
  proof (cases "i < length words")
    case True
    let ?s1 = "ws_send ws (?f i) s"
    have "sendWords words i ws s = sendWords words (i + 1) ws ?s1"
      by (subst sendWords.simps) (simp only: True if_True)
    also have "\<dots> = ?s1\<lparr>sent := (sent ?s1)(ws := sent ?s1 ws @ map ?f [i + 1..<length words])\<rparr>"
      by (rule "1.IH" [OF True])
    also have "\<dots> = s\<lparr>sent := (sent s)(ws := sent s ws @ ?f i # map ?f [i + 1..<length words])\<rparr>"
      by (simp add: ws_send_def)
    also have "?f i # map ?f [i + 1..<length words] = map ?f [i..<length words]"
      using True by (simp add: upt_conv_Cons)
    finally show ?thesis .
  next
    case False
    then show ?thesis by (subst sendWords.simps) simp
  qed
qed

lemma chunks_by_index:
  assumes "words \<noteq> []"
  shows "map (\<lambda>j. if j = length words - 1 then words ! j else words ! j @ '' '')
             [0..<length words]
         = map (\<lambda>w. w @ '' '') (butlast words) @ [last words]"
proof -
  from assms obtain xs x where words: "words = xs @ [x]"
    by (metis append_butlast_last_id)
  have "map (\<lambda>j. if j = length xs then (xs @ [x]) ! j else (xs @ [x]) ! j @ '' '') [0..<length xs]
        = map (\<lambda>j. xs ! j @ '' '') [0..<length xs]"
    by (rule map_cong) (auto simp: nth_append)
  also have "\<dots> = map (\<lambda>w. w @ '' '') (map ((!) xs) [0..<length xs])"
    by simp
  also have "\<dots> = map (\<lambda>w. w @ '' '') xs"
    by (simp only: map_nth)
  finally show ?thesis
    unfolding words by simp
qed

section \<open>Rounds of tool calls\<close>

lemmas sim_run =
  callTools_def Promise_all_def callToolWithRetry_def retryLoop.simps bind_def try_catch_def
  await_def return_def throw_def request_def on_mcpClient_def rejected_def List.map_filter_def
  toolUseBlocksOf_def maxRetries_def SESSION_EXPIRED_def errorMessage_def Error_def
  sim_def sim_model_def sim_server_def connected_state_def create_def create_params_def
  reconnectMCPSession_def initializeTools_def listAndConvert_def newTransport_def newClient_def
  mcpClient_connect_def setAvailableTools_def sim_expired_def Let_def




text \<open>
  The earlier backend, on the same response with two tool-use blocks and a server that
  accepts the session: the tool-result message holds a single result, for the first block.
\<close>

lemma earlier_backend_answers_first_tool_use_only:
  "fst (snd (callFirstTool sim
        \<lparr>stop_reason = ''tool_use'',
          response_content =
            [TextBlock ''Let me check.'',
             ToolUseBlock \<lparr>tool_id = ''toolu_1'', tool_name = ''search_markets'', tool_input = ''btc''\<rparr>,
             ToolUseBlock \<lparr>tool_id = ''toolu_2'', tool_name = ''get_trending'', tool_input = ''{}''\<rparr>]\<rparr>
        [\<lparr>role = User, content = StringContent ''btc''\<rparr>]
        (connected_state (sim_server True True [1])))) =
     [\<lparr>role = User, content = StringContent ''btc''\<rparr>,
      \<lparr>role = Assistant, content = BlockContent
          [TextBlock ''Let me check.'',
           ToolUseBlock \<lparr>tool_id = ''toolu_1'', tool_name = ''search_markets'', tool_input = ''btc''\<rparr>,
           ToolUseBlock \<lparr>tool_id = ''toolu_2'', tool_name = ''get_trending'', tool_input = ''{}''\<rparr>]\<rparr>,
      \<lparr>role = User, content = ToolResultContent
          [\<lparr>result_type = ''tool_result'', tool_use_id = ''toolu_1'',
            result_content = ''search_markets:btc''\<rparr>]\<rparr>]"
  by (simp add: callFirstTool_def run_code_def sim_run)

section \<open>What the socket receives and what is stored\<close>

lemma sent_ws_send [simp]:
  "sent (ws_send ws d s) ws = sent s ws @ [d]"
  "ws' \<noteq> ws \<Longrightarrow> sent (ws_send ws d s) ws' = sent s ws'"
  "conversationHistories (ws_send ws d s) = conversationHistories s"
  by (simp_all add: ws_send_def)

lemma sent_sendWords:
  assumes "words \<noteq> []"
  shows "sent (sendWords words 0 ws s) ws =
           sent s ws @ map (\<lambda>w. w @ '' '') (butlast words) @ [last words]"
    and "ws' \<noteq> ws \<Longrightarrow> sent (sendWords words 0 ws s) ws' = sent s ws'"
    and "conversationHistories (sendWords words 0 ws s) = conversationHistories s"
  using chunks_by_index [OF assms] by (simp_all add: sendWords_sent)

text \<open>
  Claim C5. When the conversation with the model ends with a response whose first text
  block is \<open>t\<close>, the socket receives the words of \<open>t\<close> (\<open>t\<close> split at single spaces),
  each but the last with a space put back after it, and then the one message
  \<^verbatim>\<open>[END]\<close>; the chunks before \<^verbatim>\<open>[END]\<close> concatenate to exactly \<open>t\<close>. Other sockets
  receive nothing.
\<close>

theorem final_text_is_streamed_word_by_word:
  assumes final: "converse fuel P scheds userMessage conversationHistory s = Some (Inr response, msgs, s1)"
    and first_text: "find_text (response_content response) = Some t"
  shows "\<exists>s'. processMessageWithClaude fuel P scheds userMessage conversationHistory ws s = Some s' \<and>
           (let words = split CHR '' '' t;
                chunks = map (\<lambda>w. w @ '' '') (butlast words) @ [last words]
            in sent s' ws = sent s ws @ chunks @ [''[END]''] \<and> concat chunks = t) \<and>
           (\<forall>ws'. ws' \<noteq> ws \<longrightarrow> sent s' ws' = sent s ws')"
proof -
  let ?words = "split CHR '' '' t"
  let ?s' = "ws_send ws ''[END]'' (sendWords ?words 0 ws s1)"
  from converse_frame [OF final] have same: "sent s1 = sent s"
    by (simp add: frame_def)
  have "processMessageWithClaude fuel P scheds userMessage conversationHistory ws s = Some ?s'"
    using final first_text by (simp add: processMessageWithClaude_def)
  moreover have "sent ?s' ws = sent s ws @ (map (\<lambda>w. w @ '' '') (butlast ?words) @ [last ?words]) @ [''[END]'']"
    by (simp add: sent_sendWords same)
  moreover have "concat (map (\<lambda>w. w @ '' '') (butlast ?words) @ [last ?words]) = t"
    using concat_split [of "CHR '' ''" t] by simp
  moreover have "\<forall>ws'. ws' \<noteq> ws \<longrightarrow> sent ?s' ws' = sent s ws'"
    by (simp add: sent_sendWords same)
  ultimately show ?thesis
    unfolding Let_def by blast
qed

theorem final_text_is_streamed_word_by_word_witness:
  "\<exists>s'. processMessageWithClaude 1 sim [] ''hello'' [] 7 (connected_state (sim_server True True [1]))
           = Some s' \<and>
         sent s' 7 = [''Hello '', ''there, '', ''trader'', ''[END]'']"
proof -
  let ?s = "connected_state (sim_server True True [1]) :: (sim_world, string) state"
  let ?msgs = "[\<lparr>role = User, content = StringContent ''hello''\<rparr>]"
  let ?response = "\<lparr>stop_reason = ''end_turn'', response_content = [TextBlock ''Hello there, trader'']\<rparr>"
  have final: "converse 1 sim [] ''hello'' [] ?s =
      Some (Inr ?response, ?msgs,
            ?s\<lparr>events := [CreateMessage (create_params True ?msgs [])]\<rparr>)"
    by (simp add: converse_def sim_run)
  have first_text: "find_text (response_content ?response) = Some ''Hello there, trader''"
    by simp
  from final_text_is_streamed_word_by_word [OF final first_text, of 7]
  show ?thesis
    by (auto simp: Let_def connected_state_def)
qed



text \<open>
  Claim C9. \<^verbatim>\<open>processMessageWithClaude\<close> changes no stored conversation history: it
  works on a message list of its own, built from the copy it is given. A message on a
  socket therefore leaves the stored histories as they were but for the user message
  pushed to the history of that socket; the answer of the model is stored nowhere,
  whether the turn ended with a final text or with an error. (A socket with no stored
  history gets none: the message is pushed to a fresh array that is not stored.)
\<close>

theorem stored_history_gains_the_user_message_only:
  "(\<forall>s'. processMessageWithClaude fuel P scheds userMessage conversationHistory ws s = Some s' \<longrightarrow>
      conversationHistories s' = conversationHistories s) \<and>
   (\<forall>s'. on_message fuel P scheds ws userMessage s = Some s' \<longrightarrow>
      conversationHistories s' =
        (case conversationHistories s ws of
           Some history \<Rightarrow>
             (conversationHistories s)
               (ws \<mapsto> history @ [\<lparr>hist_role = User, hist_content = userMessage\<rparr>])
         | None \<Rightarrow> conversationHistories s))"
proof -
  have process: "conversationHistories s' = conversationHistories s"
    if "processMessageWithClaude fuel P scheds userMessage conversationHistory ws s = Some s'"
    for conversationHistory s s'
  proof -
    from that obtain r msgs s1 where conv:
      "converse fuel P scheds userMessage conversationHistory s = Some (r, msgs, s1)"
      by (auto simp: processMessageWithClaude_def split: option.splits)
    from converse_frame [OF conv] have same: "conversationHistories s1 = conversationHistories s"
      by (simp add: frame_def)
    from that conv show ?thesis
      by (cases r; cases "find_text (response_content (projr r))")
         (auto simp: processMessageWithClaude_def same sent_sendWords)
  qed
  show ?thesis
  proof (intro conjI allI impI)
    fix s'
    assume "processMessageWithClaude fuel P scheds userMessage conversationHistory ws s = Some s'"
    then show "conversationHistories s' = conversationHistories s" by (rule process)
  next
    fix s'
    assume "on_message fuel P scheds ws userMessage s = Some s'"
    then show "conversationHistories s' =
        (case conversationHistories s ws of
           Some history \<Rightarrow>
             (conversationHistories s)
               (ws \<mapsto> history @ [\<lparr>hist_role = User, hist_content = userMessage\<rparr>])
         | None \<Rightarrow> conversationHistories s)"
      by (auto simp: on_message_def Let_def split: option.splits dest: process)
  qed
qed

theorem stored_history_gains_the_user_message_only_witness:
  "\<exists>s'. on_message 2 sim [[1, 1, 0, 1]] 7 ''btc''
           (on_connection 7 (connected_state (sim_server True True []))) = Some s' \<and>
         conversationHistories s' = [7 \<mapsto> [\<lparr>hist_role = User, hist_content = ''btc''\<rparr>]] \<and>
         sent s' 7 = [''Two '', ''markets '', ''are '', ''open'', ''[END]'']"
proof -
  let ?s = "on_connection 7 (connected_state (sim_server True True [])) :: (sim_world, string) state"
  obtain s' where run: "on_message 2 sim [[1, 1, 0, 1]] 7 ''btc'' ?s = Some s'"
    and sent: "sent s' 7 = [''Two '', ''markets '', ''are '', ''open'', ''[END]'']"
    by (simp add: on_message_def on_connection_def processMessageWithClaude_def converse_def
        sim_run sendWords.simps ws_send_def numeral_2_eq_2)
  from stored_history_gains_the_user_message_only [THEN conjunct2, rule_format, OF run]
  have "conversationHistories s' = [7 \<mapsto> [\<lparr>hist_role = User, hist_content = ''btc''\<rparr>]]"
    by (simp add: on_connection_def connected_state_def)
  with run sent show ?thesis by blast
qed

end
